theory Spec2Isabelle
  imports Main "HOL-Library.Word"
begin

section \<open>Machine types and C library conventions\<close>

type_synonym u8 = "8 word"
type_synonym u16 = "16 word"
type_synonym u32 = "32 word"
type_synonym i32 = "32 word"

text \<open>
  An \<open>int32_t\<close> is kept as a 32-bit word and read with \<open>sint\<close>; a \<open>uint32_t\<close> is read
  with \<open>unat\<close>. The cast \<open>(uint32_t)x\<close> of an \<open>int32_t\<close> is therefore the identity on
  the word. Handles (\<open>Trackle_PropID_t\<close>, \<open>Trackle_NotificationID_t\<close>, both C \<open>int\<close>)
  are mathematical integers; table counters, which the code only increments from 0, are
  naturals.
\<close>

text \<open>Decimal digits as \<open>printf\<close> writes them for \<open>%u\<close> and \<open>%d\<close>.\<close>

definition digit_char :: "nat \<Rightarrow> char" where
  "digit_char d = ''0123456789'' ! (d mod 10)"

fun dec_nat :: "nat \<Rightarrow> string" where
  "dec_nat n = (if n < 10 then [digit_char n] else dec_nat (n div 10) @ [digit_char (n mod 10)])"

declare dec_nat.simps [simp del]

definition dec_int :: "int \<Rightarrow> string" where
  "dec_int i = (if i < 0 then CHR ''-'' # dec_nat (nat (- i)) else dec_nat (nat i))"

text \<open>\<open>"%" PRIu32\<close> and \<open>"%u"\<close> applied to a 32-bit value; \<open>"%" PRIi32\<close> and \<open>"%d"\<close>.\<close>

definition print_u32 :: "u32 \<Rightarrow> string" where
  "print_u32 w = dec_nat (unat w)"

definition print_i32 :: "i32 \<Rightarrow> string" where
  "print_i32 w = dec_int (sint w)"

section \<open>trackle_utils_properties.c\<close>

subsection \<open>Data structures\<close>

definition JSON_BUFFER_LEN :: nat where
  "JSON_BUFFER_LEN = 1024"

text \<open>
  The header \<open>trackle_utils_properties.h\<close> fixes three build-time constants that the
  functions below take as a parameter.
\<close>

record limits =
  TRACKLE_MAX_PROPS_NUM :: nat
  TRACKLE_MAX_PROPGROUPS_NUM :: nat
  TRACKLE_MAX_PROP_NAME_LENGTH :: nat

record Prop_t =
  key :: string
  changed :: bool
  sign :: bool
  lastPubValue :: i32
  setValue :: i32
  scale :: u16
  disabled :: bool
  numDecimals :: u8
  setToPublish :: bool
  lastPubStringValue :: "string option"
  setStringValue :: "string option"
  stringValueMaxLength :: int
  debouncing :: bool
  latestSetTimeMs :: u32
  debounceDelayMs :: u32

record PropGroup_t =
  onlyIfChanged :: bool
  propsIndexes :: "nat list"
  propsWithin :: nat
  periodMs :: u32
  latestWakeTimeMs :: u32

text \<open>The file-level statics of the properties module.\<close>

record props_state =
  propGroups :: "PropGroup_t list"
  numPropGroupsCreated :: nat
  props :: "Prop_t list"
  numPropsCreated :: nat
  defaultValue :: i32
  defaultChanged :: bool

text \<open>Static storage is zero-initialised (\<open>= {0}\<close>).\<close>

definition zero_Prop :: Prop_t where
  "zero_Prop = \<lparr> key = [], changed = False, sign = False, lastPubValue = 0, setValue = 0,
     scale = 0, disabled = False, numDecimals = 0, setToPublish = False,
     lastPubStringValue = None, setStringValue = None, stringValueMaxLength = 0,
     debouncing = False, latestSetTimeMs = 0, debounceDelayMs = 0 \<rparr>"

definition zero_PropGroup :: "limits \<Rightarrow> PropGroup_t" where
  "zero_PropGroup L = \<lparr> onlyIfChanged = False,
     propsIndexes = replicate (TRACKLE_MAX_PROPS_NUM L) 0, propsWithin = 0,
     periodMs = 0, latestWakeTimeMs = 0 \<rparr>"

definition init_props_state :: "limits \<Rightarrow> props_state" where
  "init_props_state L = \<lparr> propGroups = replicate (TRACKLE_MAX_PROPGROUPS_NUM L) (zero_PropGroup L),
     numPropGroupsCreated = 0,
     props = replicate (TRACKLE_MAX_PROPS_NUM L) zero_Prop,
     numPropsCreated = 0,
     defaultValue = 0,
     defaultChanged = True \<rparr>"

subsection \<open>Elapsed-time predicate\<close>

definition UINT32_MAX :: u32 where
  "UINT32_MAX = 0xFFFFFFFF"

definition isMsElapsed :: "u32 \<Rightarrow> u32 \<Rightarrow> u32 \<Rightarrow> bool" where
  "isMsElapsed now start delay =
     (if now < start then (now + UINT32_MAX - start + 1) \<ge> delay
      else now - start \<ge> delay)"

subsection \<open>Groups\<close>

text \<open>
  Modelled from the spec: the header \<open>trackle_utils_properties.h\<close>, which defines
  \<open>Trackle_PropID_ERROR\<close> and \<open>Trackle_PropGroupID_ERROR\<close>, is not among the sources. The
  specification calls them a sentinel error value; they are taken to be \<open>-1\<close>, as
  \<open>Trackle_NotificationID_ERROR\<close> is. Valid handles are positive either way.
\<close>

definition Trackle_PropGroupID_ERROR :: int where
  "Trackle_PropGroupID_ERROR = - 1"

definition Trackle_PropID_ERROR :: int where
  "Trackle_PropID_ERROR = - 1"

text \<open>An access outside a C array is undefined behaviour; the model reports it.\<close>

datatype error = OutOfBounds

definition Trackle_PropGroup_create ::
  "limits \<Rightarrow> u32 \<Rightarrow> bool \<Rightarrow> props_state \<Rightarrow> int \<times> props_state" where
  "Trackle_PropGroup_create L periodMs' onlyIfChanged' st =
     (if numPropGroupsCreated st < TRACKLE_MAX_PROPGROUPS_NUM L then
        (let newPropGroupIndex = numPropGroupsCreated st;
             g = (propGroups st ! newPropGroupIndex)
                   \<lparr> latestWakeTimeMs := 0, onlyIfChanged := onlyIfChanged',
                     propsWithin := 0, periodMs := periodMs' \<rparr>
         in (int newPropGroupIndex + 1,
             st \<lparr> propGroups := (propGroups st)[newPropGroupIndex := g],
                  numPropGroupsCreated := numPropGroupsCreated st + 1 \<rparr>))
      else (Trackle_PropGroupID_ERROR, st))"

text \<open>
  The guard of \<open>Trackle_PropGroup_addProp\<close> is a chain of \<open>&&\<close>: its last conjunct reads
  \<open>propGroups[propGroupId]\<close> (the handle, not the index) and is evaluated only when the
  first four hold.
\<close>

definition Trackle_PropGroup_addProp ::
  "limits \<Rightarrow> int \<Rightarrow> int \<Rightarrow> props_state \<Rightarrow> error + (bool \<times> props_state)" where
  "Trackle_PropGroup_addProp L propId propGroupId st =
     (let propIndex = propId - 1;
          propGroupIndex = propGroupId - 1
      in if propGroupIndex \<ge> 0 \<and> propGroupIndex < int (numPropGroupsCreated st)
            \<and> propIndex < int (numPropsCreated st) \<and> propIndex \<ge> 0
         then
           (if nat propGroupId \<ge> length (propGroups st) then Inl OutOfBounds
            else if int (propsWithin (propGroups st ! nat propGroupId))
                      < int (TRACKLE_MAX_PROPS_NUM L) - 1
            then
              (let g = propGroups st ! nat propGroupIndex;
                   propsWithin' = propsWithin g
               in if nat propIndex \<in> set (take propsWithin' (propsIndexes g))
                  then Inr (False, st)
                  else if propsWithin' \<ge> length (propsIndexes g) then Inl OutOfBounds
                  else Inr (True,
                    st \<lparr> propGroups := (propGroups st)[nat propGroupIndex :=
                           g \<lparr> propsIndexes := (propsIndexes g)[propsWithin' := nat propIndex],
                               propsWithin := propsWithin' + 1 \<rparr>] \<rparr>))
            else Inr (False, st))
         else Inr (False, st))"

subsection \<open>Rendering a property\<close>

text \<open>
  \<open>fmtd n v s\<close> stands for the C library's output of \<open>"%.nf"\<close> on the double
  \<open>((double)v) / s\<close>; floating point is outside the model, so it is a parameter.
\<close>

type_synonym double_printer = "nat \<Rightarrow> i32 \<Rightarrow> u16 \<Rightarrow> string"

definition quoted :: "string \<Rightarrow> string" where
  "quoted s = CHR 0x22 # s @ [CHR 0x22]"

definition appendPropertyToJsonString :: "double_printer \<Rightarrow> string \<Rightarrow> Prop_t \<Rightarrow> string" where
  "appendPropertyToJsonString fmtd jsonBuffer p =
     (let buf = (if length jsonBuffer > 1 then jsonBuffer @ '','' else jsonBuffer)
      in case setStringValue p of
           Some sv \<Rightarrow> buf @ quoted (key p) @ '':'' @ quoted sv
         | None \<Rightarrow>
             if scale p = 1 then
               (if sign p then buf @ quoted (key p) @ '':'' @ print_u32 (setValue p)
                else buf @ quoted (key p) @ '':'' @ print_i32 (setValue p))
             else buf @ quoted (key p) @ '':'' @ fmtd (unat (numDecimals p)) (setValue p) (scale p))"

text \<open>
  String properties own two distinct buffers, both allocated by
  \<open>Trackle_Prop_createString\<close>; \<open>strcmp\<close> on them is equality of their contents.
\<close>

definition isSetValueEqualToLastSent :: "Prop_t \<Rightarrow> bool" where
  "isSetValueEqualToLastSent p =
     (case setStringValue p of
        Some sv \<Rightarrow> lastPubStringValue p = Some sv
      | None \<Rightarrow> setValue p = lastPubValue p)"

definition updateLastSentToSetValue :: "Prop_t \<Rightarrow> Prop_t" where
  "updateLastSentToSetValue p =
     (case setStringValue p of
        Some sv \<Rightarrow> p \<lparr> lastPubStringValue := Some sv \<rparr>
      | None \<Rightarrow> p \<lparr> lastPubValue := setValue p \<rparr>)"

subsection \<open>The periodic task\<close>

text \<open>
  The task's locals \<open>first_run\<close> and \<open>jsonBuffer\<close> live across iterations of its
  endless loop, so they are part of the state. One call of \<open>tick\<close> is one iteration of
  that loop, after the delay: \<open>connected\<close> is the answer of \<open>trackleConnected\<close>,
  \<open>sync\<close> is \<open>trackleSyncStateSecure\<close> and \<open>nowMs\<close> the tick count in milliseconds.
\<close>

record task_state = props_state +
  first_run :: bool
  jsonBuffer :: string

type_synonym acc = "Prop_t list \<times> string \<times> bool"

text \<open>The body of the innermost loop (one member of a due group).\<close>

definition member_step ::
  "double_printer \<Rightarrow> u32 \<Rightarrow> bool \<Rightarrow> bool \<Rightarrow> nat \<Rightarrow> acc \<Rightarrow> error + acc" where
  "member_step fmtd nowMs onlyIfChanged' first_run' propIdx a =
     (case a of (ps, buf, propsToPublish) \<Rightarrow>
        if propIdx \<ge> length ps then Inl OutOfBounds
        else
          (let p = ps ! propIdx;
               p1 = (if debouncing p \<and> isMsElapsed nowMs (latestSetTimeMs p) (debounceDelayMs p)
                     then p \<lparr> debouncing := False, changed := True \<rparr> else p)
           in if \<not> disabled p1 \<and>
                 ((changed p1 \<and> \<not> isSetValueEqualToLastSent p1) \<or> \<not> onlyIfChanged' \<or> first_run')
              then
                (let buf1 = (if \<not> propsToPublish then buf @ ''{'' else buf);
                     buf2 = appendPropertyToJsonString fmtd buf1 p1
                 in if length buf2 \<ge> JSON_BUFFER_LEN then Inl OutOfBounds
                    else Inr (ps[propIdx := updateLastSentToSetValue (p1 \<lparr> setToPublish := True \<rparr>)],
                              buf2, True))
              else Inr (ps[propIdx := p1], buf, propsToPublish)))"

fun members_loop ::
  "double_printer \<Rightarrow> u32 \<Rightarrow> bool \<Rightarrow> bool \<Rightarrow> nat list \<Rightarrow> acc \<Rightarrow> error + acc" where
  "members_loop fmtd nowMs oic fr [] a = Inr a"
| "members_loop fmtd nowMs oic fr (i # is) a =
     (case member_step fmtd nowMs oic fr i a of
        Inl e \<Rightarrow> Inl e
      | Inr a' \<Rightarrow> members_loop fmtd nowMs oic fr is a')"

text \<open>
  The members of a group are the first \<open>propsWithin\<close> entries of its index array; a
  count beyond the array would make the loop read outside it.
\<close>

definition members :: "PropGroup_t \<Rightarrow> nat list" where
  "members g = take (propsWithin g) (propsIndexes g)"

fun groups_loop ::
  "double_printer \<Rightarrow> u32 \<Rightarrow> bool \<Rightarrow> PropGroup_t list \<Rightarrow> acc \<Rightarrow> error + (PropGroup_t list \<times> acc)" where
  "groups_loop fmtd nowMs fr [] a = Inr ([], a)"
| "groups_loop fmtd nowMs fr (g # gs) a =
     (if isMsElapsed nowMs (latestWakeTimeMs g) (periodMs g) \<or> fr then
        (if propsWithin g > length (propsIndexes g) then Inl OutOfBounds
         else case members_loop fmtd nowMs (onlyIfChanged g) fr (members g) a of
           Inl e \<Rightarrow> Inl e
         | Inr a' \<Rightarrow>
             (case groups_loop fmtd nowMs fr gs a' of
                Inl e \<Rightarrow> Inl e
              | Inr (gs', a'') \<Rightarrow> Inr (g \<lparr> latestWakeTimeMs := nowMs \<rparr> # gs', a'')))
      else
        (case groups_loop fmtd nowMs fr gs a of
           Inl e \<Rightarrow> Inl e
         | Inr (gs', a') \<Rightarrow> Inr (g # gs', a')))"

text \<open>The two loops over \<open>pIdx < numPropsCreated\<close> after the publish call.\<close>

definition clear_changed_of_published :: "nat \<Rightarrow> Prop_t list \<Rightarrow> Prop_t list" where
  "clear_changed_of_published n ps =
     map (\<lambda>p. if setToPublish p then p \<lparr> changed := False \<rparr> else p) (take n ps) @ drop n ps"

definition clear_setToPublish :: "nat \<Rightarrow> Prop_t list \<Rightarrow> Prop_t list" where
  "clear_setToPublish n ps = map (\<lambda>p. p \<lparr> setToPublish := False \<rparr>) (take n ps) @ drop n ps"

text \<open>
  One iteration. The second component of the result is the string handed to
  \<open>trackleSyncStateSecure\<close>, if the call is made.
\<close>

definition tick ::
  "double_printer \<Rightarrow> bool \<Rightarrow> (string \<Rightarrow> bool) \<Rightarrow> u32 \<Rightarrow> task_state
     \<Rightarrow> error + (task_state \<times> string option)" where
  "tick fmtd connected sync nowMs st =
     (if connected then
        (let n = numPropGroupsCreated st in
         case groups_loop fmtd nowMs (first_run st) (take n (propGroups st))
                (props st, jsonBuffer st, False) of
           Inl e \<Rightarrow> Inl e
         | Inr (gs', ps, buf, propsToPublish) \<Rightarrow>
             (let st1 = st \<lparr> propGroups := gs' @ drop n (propGroups st), props := ps,
                             jsonBuffer := buf \<rparr>
              in if propsToPublish then
                   (let buf' = buf @ ''}''
                    in if length buf' \<ge> JSON_BUFFER_LEN then Inl OutOfBounds
                       else
                         (let publishedSuccessfully = sync buf';
                              ps1 = (if publishedSuccessfully
                                     then clear_changed_of_published (numPropsCreated st) ps else ps);
                              fr1 = (if publishedSuccessfully then False else first_run st)
                          in Inr (st1 \<lparr> props := clear_setToPublish (numPropsCreated st) ps1,
                                        first_run := fr1, jsonBuffer := [] \<rparr>,
                                  Some buf')))
                 else Inr (st1, None)))
      else Inr (st, None))"

text \<open>
  The code before the endless loop: every created group's wake time is set to the start
  time, the buffer is emptied and \<open>first_run\<close> is set.
\<close>

definition task_start :: "u32 \<Rightarrow> props_state \<Rightarrow> task_state" where
  "task_start startMs st =
     props_state.extend
       (st \<lparr> propGroups :=
               map (\<lambda>g. g \<lparr> latestWakeTimeMs := startMs \<rparr>) (take (numPropGroupsCreated st) (propGroups st))
               @ drop (numPropGroupsCreated st) (propGroups st) \<rparr>)
       (task_state.fields True [])"

subsection \<open>Creating properties\<close>

definition Trackle_Prop_create ::
  "limits \<Rightarrow> string \<Rightarrow> u16 \<Rightarrow> u8 \<Rightarrow> bool \<Rightarrow> props_state \<Rightarrow> int \<times> props_state" where
  "Trackle_Prop_create L name scale' numDecimals' sign' st =
     (if numPropsCreated st < TRACKLE_MAX_PROPS_NUM L then
        (let newPropIndex = numPropsCreated st
         in if name \<in> set (map key (take (numPropsCreated st) (props st)))
            then (Trackle_PropID_ERROR, st)
            else if length name < TRACKLE_MAX_PROP_NAME_LENGTH L then
              (let p = (props st ! newPropIndex)
                     \<lparr> key := name,
                       lastPubValue := defaultValue st,
                       setValue := defaultValue st,
                       scale := scale',
                       sign := sign',
                       numDecimals := numDecimals',
                       disabled := False,
                       changed := defaultChanged st,
                       setToPublish := False,
                       lastPubStringValue := None,
                       setStringValue := None,
                       stringValueMaxLength := 0,
                       debouncing := False,
                       latestSetTimeMs := 0,
                       debounceDelayMs := 0 \<rparr>
               in (int newPropIndex + 1,
                   st \<lparr> props := (props st)[newPropIndex := p],
                        numPropsCreated := numPropsCreated st + 1 \<rparr>))
            else (Trackle_PropID_ERROR, st))
      else (Trackle_PropID_ERROR, st))"

text \<open>
  \<open>malloc1\<close> and \<open>malloc2\<close> say whether the two allocations succeed. When one fails the
  slot has already been written, but the counter is not advanced.
\<close>

definition Trackle_Prop_createString ::
  "limits \<Rightarrow> bool \<Rightarrow> bool \<Rightarrow> string \<Rightarrow> int \<Rightarrow> props_state \<Rightarrow> int \<times> props_state" where
  "Trackle_Prop_createString L malloc1 malloc2 name maxLength st =
     (if numPropsCreated st < TRACKLE_MAX_PROPS_NUM L then
        (let newPropIndex = numPropsCreated st
         in if name \<in> set (map key (take (numPropsCreated st) (props st)))
            then (Trackle_PropID_ERROR, st)
            else if length name < TRACKLE_MAX_PROP_NAME_LENGTH L then
              (let p0 = (props st ! newPropIndex)
                     \<lparr> key := name,
                       lastPubValue := defaultValue st,
                       setValue := defaultValue st,
                       scale := 1,
                       sign := False,
                       numDecimals := 0,
                       disabled := False,
                       changed := defaultChanged st,
                       setToPublish := False \<rparr>
               in if \<not> malloc1
                  then (Trackle_PropID_ERROR,
                        st \<lparr> props := (props st)[newPropIndex := p0 \<lparr> lastPubStringValue := None \<rparr>] \<rparr>)
                  else if \<not> malloc2
                  then (Trackle_PropID_ERROR,
                        st \<lparr> props := (props st)[newPropIndex :=
                               p0 \<lparr> lastPubStringValue := Some [], setStringValue := None \<rparr>] \<rparr>)
                  else
                    (let p = p0 \<lparr> lastPubStringValue := Some [],
                                  setStringValue := Some [],
                                  stringValueMaxLength := maxLength,
                                  debouncing := False,
                                  latestSetTimeMs := 0,
                                  debounceDelayMs := 0 \<rparr>
                     in (int newPropIndex + 1,
                         st \<lparr> props := (props st)[newPropIndex := p],
                              numPropsCreated := numPropsCreated st + 1 \<rparr>)))
            else (Trackle_PropID_ERROR, st))
      else (Trackle_PropID_ERROR, st))"


subsection \<open>Updating properties\<close>

text \<open>
  \<open>nowMs\<close> is \<open>xTaskGetTickCount() * portTICK_PERIOD_MS\<close> at the time of the call. The
  functions of this subsection may be called while the task runs, so they accept the
  module's statics together with the task's locals.
\<close>

definition Trackle_Prop_update ::
  "u32 \<Rightarrow> int \<Rightarrow> i32 \<Rightarrow> 'a props_state_scheme \<Rightarrow> bool \<times> 'a props_state_scheme" where
  "Trackle_Prop_update nowMs propID newValue st =
     (let propIndex = propID - 1
      in if propIndex \<ge> 0 \<and> propIndex < int (numPropsCreated st) then
           (let p = props st ! nat propIndex
            in if setValue p \<noteq> newValue then
                 (True, st \<lparr> props := (props st)[nat propIndex :=
                               p \<lparr> debouncing := True, latestSetTimeMs := nowMs,
                                   setValue := newValue \<rparr>] \<rparr>)
               else (False, st))
         else (False, st))"

text \<open>
  \<open>newValue\<close> is \<open>None\<close> for a null pointer. \<open>strncpy\<close> followed by the terminator
  keeps at most \<open>stringValueMaxLength\<close> characters.
\<close>

definition Trackle_Prop_updateString ::
  "u32 \<Rightarrow> int \<Rightarrow> string option \<Rightarrow> 'a props_state_scheme \<Rightarrow> bool \<times> 'a props_state_scheme" where
  "Trackle_Prop_updateString nowMs propID newValue st =
     (let propIndex = propID - 1
      in if propIndex \<ge> 0 \<and> propIndex < int (numPropsCreated st) then
           (let p = props st ! nat propIndex
            in case (setStringValue p, newValue) of
                 (Some cur, Some new) \<Rightarrow>
                   if cur \<noteq> new then
                     (True, st \<lparr> props := (props st)[nat propIndex :=
                                   p \<lparr> debouncing := True, latestSetTimeMs := nowMs,
                                       setStringValue :=
                                         Some (take (nat (stringValueMaxLength p)) new) \<rparr>] \<rparr>)
                   else (False, st)
               | _ \<Rightarrow> (False, st))
         else (False, st))"

definition Trackle_Prop_setDisabled ::
  "int \<Rightarrow> bool \<Rightarrow> 'a props_state_scheme \<Rightarrow> bool \<times> 'a props_state_scheme" where
  "Trackle_Prop_setDisabled propID isDisabled st =
     (let propIndex = propID - 1
      in if propIndex \<ge> 0 \<and> propIndex < int (numPropsCreated st)
         then (True, st \<lparr> props := (props st)[nat propIndex :=
                             (props st ! nat propIndex) \<lparr> disabled := isDisabled \<rparr>] \<rparr>)
         else (False, st))"

definition Trackle_Prop_setDebounceDelay ::
  "int \<Rightarrow> u32 \<Rightarrow> 'a props_state_scheme \<Rightarrow> bool \<times> 'a props_state_scheme" where
  "Trackle_Prop_setDebounceDelay propID debounceDelayMs' st =
     (let propIndex = propID - 1
      in if propIndex \<ge> 0 \<and> propIndex < int (numPropsCreated st)
         then (True, st \<lparr> props := (props st)[nat propIndex :=
                             (props st ! nat propIndex) \<lparr> debounceDelayMs := debounceDelayMs' \<rparr>] \<rparr>)
         else (False, st))"

subsection \<open>Accessors of properties\<close>

definition EMPTY_STRING :: string where
  "EMPTY_STRING = []"

definition Trackle_Prop_isDisabled :: "props_state \<Rightarrow> int \<Rightarrow> bool" where
  "Trackle_Prop_isDisabled st propID =
     (let propIndex = propID - 1
      in if propIndex \<ge> 0 \<and> propIndex < int (numPropsCreated st)
         then disabled (props st ! nat propIndex) else False)"

definition Trackle_Prop_getKey :: "props_state \<Rightarrow> int \<Rightarrow> string" where
  "Trackle_Prop_getKey st propID =
     (let propIndex = propID - 1
      in if propIndex \<ge> 0 \<and> propIndex < int (numPropsCreated st)
         then key (props st ! nat propIndex) else EMPTY_STRING)"

definition Trackle_Prop_getValue :: "props_state \<Rightarrow> int \<Rightarrow> i32" where
  "Trackle_Prop_getValue st propID =
     (let propIndex = propID - 1
      in if propIndex \<ge> 0 \<and> propIndex < int (numPropsCreated st)
         then setValue (props st ! nat propIndex) else - 1)"

text \<open>The second component is what is written to the caller's buffer, if anything.\<close>

definition Trackle_Prop_getStringValue :: "props_state \<Rightarrow> int \<Rightarrow> int \<Rightarrow> bool \<times> string option" where
  "Trackle_Prop_getStringValue st propID retValueMaxLen =
     (let propIndex = propID - 1
      in if propIndex \<ge> 0 \<and> propIndex < int (numPropsCreated st) then
           (case setStringValue (props st ! nat propIndex) of
              Some sv \<Rightarrow> (True, Some (take (nat retValueMaxLen) sv))
            | None \<Rightarrow> (False, None))
         else (False, None))"

definition Trackle_Prop_getScale :: "props_state \<Rightarrow> int \<Rightarrow> u16" where
  "Trackle_Prop_getScale st propID =
     (let propIndex = propID - 1
      in if propIndex \<ge> 0 \<and> propIndex < int (numPropsCreated st)
         then scale (props st ! nat propIndex) else 0)"

definition Trackle_Prop_getNumberOfDecimals :: "props_state \<Rightarrow> int \<Rightarrow> u8" where
  "Trackle_Prop_getNumberOfDecimals st propID =
     (let propIndex = propID - 1
      in if propIndex \<ge> 0 \<and> propIndex < int (numPropsCreated st)
         then numDecimals (props st ! nat propIndex) else 0)"

definition Trackle_Prop_isSigned :: "props_state \<Rightarrow> int \<Rightarrow> bool" where
  "Trackle_Prop_isSigned st propID =
     (let propIndex = propID - 1
      in if propIndex \<ge> 0 \<and> propIndex < int (numPropsCreated st)
         then sign (props st ! nat propIndex) else False)"

section \<open>trackle_utils_notifications.c\<close>

definition TRACKLE_MAX_NOTIFICATIONS_NUM :: nat where
  "TRACKLE_MAX_NOTIFICATIONS_NUM = 20"

definition Trackle_NotificationID_ERROR :: int where
  "Trackle_NotificationID_ERROR = - 1"

definition NOTIFICATION_NAME_LENGTH :: nat where
  "NOTIFICATION_NAME_LENGTH = 64"

definition NOTIFICATION_EVENT_LENGTH :: nat where
  "NOTIFICATION_EVENT_LENGTH = 64"

definition NOTIFICATION_FORMAT_LENGTH :: nat where
  "NOTIFICATION_FORMAT_LENGTH = 128"

text \<open>
  The fields of \<open>Notification_t\<close> carry the prefix \<open>n_\<close>, since several share their
  names with fields of \<open>Prop_t\<close>. A value map is an array of string pointers, each
  possibly null; \<open>None\<close> for the field is a null \<open>valueMap\<close>.
\<close>

record Notification_t =
  n_key :: string
  n_event :: string
  n_format :: string
  n_changed :: bool
  n_sign :: bool
  n_value :: i32
  n_scale :: u16
  n_numDecimals :: u8
  n_level :: u8
  n_valueMap :: "string option list option"
  n_valueMapSize :: u8

record notif_state =
  notifications :: "Notification_t list"
  numNotificationsCreated :: nat

definition zero_Notification :: Notification_t where
  "zero_Notification = \<lparr> n_key = [], n_event = [], n_format = [], n_changed = False,
     n_sign = False, n_value = 0, n_scale = 0, n_numDecimals = 0, n_level = 0,
     n_valueMap = None, n_valueMapSize = 0 \<rparr>"

definition init_notif_state :: notif_state where
  "init_notif_state = \<lparr> notifications = replicate TRACKLE_MAX_NOTIFICATIONS_NUM zero_Notification,
     numNotificationsCreated = 0 \<rparr>"

subsection \<open>Rendering a notification's value\<close>

text \<open>
  The part of \<open>makeMessageStringFromNotification\<close> that renders the value: the contents
  of \<open>valueBuffer\<close> (32 bytes) before the final \<open>sprintf\<close> with the notification's own
  format. \<open>snprintf\<close> keeps at most 31 characters of a mapped string. The integers take
  at most 11 characters. The decimal is written with \<open>sprintf\<close>, which overruns the
  buffer when the output has 32 characters or more. Overrunning the buffer and reading
  the map beyond the array the caller supplied are reported as \<open>OutOfBounds\<close>.
\<close>

definition notification_valueBuffer :: "double_printer \<Rightarrow> Notification_t \<Rightarrow> error + string" where
  "notification_valueBuffer fmtd n =
     (if n_valueMap n \<noteq> None \<and> n_valueMapSize n > 0 \<and> sint (n_value n) \<ge> 0
         \<and> sint (n_value n) < uint (n_valueMapSize n)
      then
        (let m = the (n_valueMap n); i = nat (sint (n_value n))
         in if i \<ge> length m then Inl OutOfBounds
            else case m ! i of
                   Some mappedString \<Rightarrow> Inr (take 31 (quoted mappedString))
                 | None \<Rightarrow>
                     if n_sign n then Inr (print_i32 (n_value n))
                     else Inr (print_u32 (n_value n)))
      else if n_scale n = 1 then
        (if n_sign n then Inr (print_i32 (n_value n))
         else Inr (print_u32 (n_value n)))
      else
        (let printed = fmtd (unat (n_numDecimals n)) (n_value n) (n_scale n)
         in if length printed \<ge> 32 then Inl OutOfBounds else Inr printed))"

subsection \<open>Creating and updating notifications\<close>

definition Trackle_Notification_createWithValueMap ::
  "string \<Rightarrow> string \<Rightarrow> string \<Rightarrow> u16 \<Rightarrow> u8 \<Rightarrow> bool \<Rightarrow> string option list option \<Rightarrow> u8
     \<Rightarrow> notif_state \<Rightarrow> int \<times> notif_state" where
  "Trackle_Notification_createWithValueMap name eventName format' scale' numDecimals' sign'
       valueMap' valueMapSize' st =
     (if numNotificationsCreated st < TRACKLE_MAX_NOTIFICATIONS_NUM then
        (let newNotificationIndex = numNotificationsCreated st;
             n0 = notifications st ! newNotificationIndex
         in if name \<in> set (map n_key (take (numNotificationsCreated st) (notifications st)))
            then (Trackle_NotificationID_ERROR, st)
            else if \<not> length name < NOTIFICATION_NAME_LENGTH
            then (Trackle_NotificationID_ERROR, st)
            else if \<not> length eventName < NOTIFICATION_EVENT_LENGTH
            then (Trackle_NotificationID_ERROR,
                  st \<lparr> notifications := (notifications st)[newNotificationIndex :=
                         n0 \<lparr> n_key := name \<rparr>] \<rparr>)
            else if \<not> length format' < NOTIFICATION_FORMAT_LENGTH
            then (Trackle_NotificationID_ERROR,
                  st \<lparr> notifications := (notifications st)[newNotificationIndex :=
                         n0 \<lparr> n_key := name, n_event := eventName \<rparr>] \<rparr>)
            else
              (int newNotificationIndex + 1,
               st \<lparr> notifications := (notifications st)[newNotificationIndex :=
                       n0 \<lparr> n_key := name, n_event := eventName, n_format := format',
                            n_value := - 1,
                            n_scale := scale',
                            n_sign := sign',
                            n_numDecimals := numDecimals',
                            n_changed := False,
                            n_level := 0,
                            n_valueMap := valueMap',
                            n_valueMapSize := valueMapSize' \<rparr>],
                    numNotificationsCreated := numNotificationsCreated st + 1 \<rparr>))
      else (Trackle_NotificationID_ERROR, st))"

definition Trackle_Notification_create ::
  "string \<Rightarrow> string \<Rightarrow> string \<Rightarrow> u16 \<Rightarrow> u8 \<Rightarrow> bool \<Rightarrow> notif_state \<Rightarrow> int \<times> notif_state" where
  "Trackle_Notification_create name eventName format' scale' numDecimals' sign' st =
     Trackle_Notification_createWithValueMap name eventName format' scale' numDecimals' sign'
       None 0 st"

definition Trackle_Notification_update :: "int \<Rightarrow> u8 \<Rightarrow> i32 \<Rightarrow> notif_state \<Rightarrow> bool \<times> notif_state" where
  "Trackle_Notification_update notificationID newLevel value' st =
     (let notificationIndex = notificationID - 1
      in if notificationIndex \<ge> 0 \<and> notificationIndex < int (numNotificationsCreated st) then
           (let n = notifications st ! nat notificationIndex
            in if n_level n \<noteq> newLevel then
                 (True, st \<lparr> notifications := (notifications st)[nat notificationIndex :=
                               n \<lparr> n_changed := True, n_value := value', n_level := newLevel \<rparr>] \<rparr>)
               else (True, st))
         else (False, st))"

subsection \<open>Accessors of notifications\<close>

definition Trackle_Notification_getKey :: "notif_state \<Rightarrow> int \<Rightarrow> string" where
  "Trackle_Notification_getKey st notificationID =
     (let notificationIndex = notificationID - 1
      in if notificationIndex \<ge> 0 \<and> notificationIndex < int (numNotificationsCreated st)
         then n_key (notifications st ! nat notificationIndex) else EMPTY_STRING)"

text \<open>The \<open>uint8_t\<close> level is widened to the \<open>int32_t\<close> result.\<close>

definition Trackle_Notification_getLevel :: "notif_state \<Rightarrow> int \<Rightarrow> i32" where
  "Trackle_Notification_getLevel st notificationID =
     (let notificationIndex = notificationID - 1
      in if notificationIndex \<ge> 0 \<and> notificationIndex < int (numNotificationsCreated st)
         then ucast (n_level (notifications st ! nat notificationIndex)) else - 1)"

definition Trackle_Notification_getValue :: "notif_state \<Rightarrow> int \<Rightarrow> i32" where
  "Trackle_Notification_getValue st notificationID =
     (let notificationIndex = notificationID - 1
      in if notificationIndex \<ge> 0 \<and> notificationIndex < int (numNotificationsCreated st)
         then n_value (notifications st ! nat notificationIndex) else - 1)"

section \<open>What one iteration of the properties task publishes\<close>

text \<open>
  The notions in which the composition of a batch is stated. They describe an iteration
  from the state it starts in.
\<close>

definition due_groups :: "u32 \<Rightarrow> task_state \<Rightarrow> PropGroup_t list" where
  "due_groups nowMs st =
     filter (\<lambda>g. isMsElapsed nowMs (latestWakeTimeMs g) (periodMs g) \<or> first_run st)
       (take (numPropGroupsCreated st) (propGroups st))"

text \<open>The changed flag once a debounce delay that has elapsed is taken into account.\<close>

definition changed_after_debounce :: "u32 \<Rightarrow> Prop_t \<Rightarrow> bool" where
  "changed_after_debounce nowMs p =
     (changed p \<or> (debouncing p \<and> isMsElapsed nowMs (latestSetTimeMs p) (debounceDelayMs p)))"

text \<open>
  The condition for including a member exactly as the specification words it, over the
  five facts it names.
\<close>

definition spec_staged :: "bool \<Rightarrow> bool \<Rightarrow> bool \<Rightarrow> bool \<Rightarrow> bool \<Rightarrow> bool" where
  "spec_staged is_disabled is_changed differs only_if_changed first_tick =
     (\<not> is_disabled \<and> ((is_changed \<and> differs) \<or> \<not> only_if_changed \<or> first_tick))"

text \<open>
  The same condition on a property as an iteration finds it, with \<open>latch\<close> in the place
  of "this is the first tick".
\<close>

definition staging_condition :: "u32 \<Rightarrow> bool \<Rightarrow> bool \<Rightarrow> Prop_t \<Rightarrow> bool" where
  "staging_condition nowMs latch oic p =
     spec_staged (disabled p) (changed_after_debounce nowMs p)
       (\<not> isSetValueEqualToLastSent p) oic latch"

text \<open>
  The members of the due groups in the order the task visits them, each with the policy
  of its group.
\<close>

definition encounters :: "u32 \<Rightarrow> task_state \<Rightarrow> (bool \<times> nat) list" where
  "encounters nowMs st =
     concat (map (\<lambda>g. map (Pair (onlyIfChanged g)) (members g)) (due_groups nowMs st))"

text \<open>
  The sequence of staged members. A property met a second time in the same iteration,
  after it has been staged, is written again only through a group that publishes always
  (or while the latch is set).
\<close>

definition stage_next :: "u32 \<Rightarrow> bool \<Rightarrow> Prop_t list \<Rightarrow> nat list \<Rightarrow> bool \<times> nat \<Rightarrow> nat list" where
  "stage_next nowMs latch ps staged e =
     (case e of (oic, i) \<Rightarrow>
        if staging_condition nowMs latch oic (ps ! i) \<and> (i \<notin> set staged \<or> \<not> oic \<or> latch)
        then staged @ [i] else staged)"

definition staged_sequence :: "u32 \<Rightarrow> task_state \<Rightarrow> nat list" where
  "staged_sequence nowMs st =
     foldl (stage_next nowMs (first_run st) (props st)) [] (encounters nowMs st)"

fun join_commas :: "string list \<Rightarrow> string" where
  "join_commas [] = []"
| "join_commas [x] = x"
| "join_commas (x # y # ys) = x @ '','' @ join_commas (y # ys)"

text \<open>One member of the JSON object: what the formatter appends to an empty buffer.\<close>

definition render_member :: "double_printer \<Rightarrow> Prop_t \<Rightarrow> string" where
  "render_member fmtd p = appendPropertyToJsonString fmtd [] p"

definition batch_payload :: "double_printer \<Rightarrow> Prop_t list \<Rightarrow> nat list \<Rightarrow> string option" where
  "batch_payload fmtd ps staged =
     (if staged = [] then None
      else Some (''{'' @ join_commas (map (\<lambda>i. render_member fmtd (ps ! i)) staged) @ ''}''))"

section \<open>Notions used in the proofs about an iteration\<close>

text \<open>
  The debounce step and the staging step of the loop body as functions on one property,
  the test of the loop body, the relation between the properties at the start of an
  iteration and during it, and the buffer after a sequence of members has been staged.
\<close>

definition promote :: "u32 \<Rightarrow> Prop_t \<Rightarrow> Prop_t" where
  "promote nowMs p =
     (if debouncing p \<and> isMsElapsed nowMs (latestSetTimeMs p) (debounceDelayMs p)
      then p \<lparr> debouncing := False, changed := True \<rparr> else p)"

definition mark_staged :: "Prop_t \<Rightarrow> Prop_t" where
  "mark_staged p = updateLastSentToSetValue (p \<lparr> setToPublish := True \<rparr>)"

definition tracks :: "u32 \<Rightarrow> Prop_t list \<Rightarrow> nat list \<Rightarrow> Prop_t list \<Rightarrow> bool" where
  "tracks nowMs ps0 staged ps =
     (length ps = length ps0 \<and>
      (\<forall>i < length ps0.
         if i \<in> set staged then ps ! i = mark_staged (promote nowMs (ps0 ! i))
         else ps ! i = ps0 ! i \<or> ps ! i = promote nowMs (ps0 ! i)))"

definition buffer_of :: "double_printer \<Rightarrow> Prop_t list \<Rightarrow> nat list \<Rightarrow> string" where
  "buffer_of fmtd ps0 staged =
     (if staged = [] then []
      else ''{'' @ join_commas (map (\<lambda>i. render_member fmtd (ps0 ! i)) staged))"

definition publish_test :: "bool \<Rightarrow> bool \<Rightarrow> Prop_t \<Rightarrow> bool" where
  "publish_test oic fr q =
     (\<not> disabled q \<and> ((changed q \<and> \<not> isSetValueEqualToLastSent q) \<or> \<not> oic \<or> fr))"

definition due :: "u32 \<Rightarrow> bool \<Rightarrow> PropGroup_t \<Rightarrow> bool" where
  "due nowMs fr g = (isMsElapsed nowMs (latestWakeTimeMs g) (periodMs g) \<or> fr)"

definition visits :: "u32 \<Rightarrow> bool \<Rightarrow> PropGroup_t list \<Rightarrow> (bool \<times> nat) list" where
  "visits nowMs fr gs =
     concat (map (\<lambda>g. map (Pair (onlyIfChanged g)) (members g)) (filter (due nowMs fr) gs))"

section \<open>Running the task\<close>

text \<open>
  A run is a sequence of events: an iteration of the task (with the answer of the
  connectivity check, the outcome of the publish call and the time), or a call of
  \<open>Trackle_Prop_update\<close> from the application. The run collects what each iteration
  publishes.
\<close>

datatype event = Tick bool bool u32 | Update u32 int i32

fun run :: "double_printer \<Rightarrow> event list \<Rightarrow> task_state \<Rightarrow> error + (task_state \<times> string option list)" where
  "run fmtd [] st = Inr (st, [])"
| "run fmtd (Tick connected ok nowMs # es) st =
     (case tick fmtd connected (\<lambda>_. ok) nowMs st of
        Inl e \<Rightarrow> Inl e
      | Inr (st', out) \<Rightarrow>
          (case run fmtd es st' of
             Inl e \<Rightarrow> Inl e
           | Inr (st'', outs) \<Rightarrow> Inr (st'', out # outs)))"
| "run fmtd (Update nowMs propID v # es) st =
     run fmtd es (snd (Trackle_Prop_update nowMs propID v st))"

text \<open>
  Whether, in a run with the given outputs, some iteration handed a payload to the publish
  call and the call succeeded.
\<close>

fun publish_succeeded :: "event list \<Rightarrow> string option list \<Rightarrow> bool" where
  "publish_succeeded (Tick connected ok nowMs # es) (out # outs) =
     ((out \<noteq> None \<and> ok) \<or> publish_succeeded es outs)"
| "publish_succeeded (Update nowMs propID v # es) outs = publish_succeeded es outs"
| "publish_succeeded es outs = False"

section \<open>Reference scenarios\<close>

text \<open>
  Small concrete configurations and states, built with the module's own functions, on
  which the general results are instantiated and the deviations are exhibited.
\<close>

definition demo_limits :: limits where
  "demo_limits = \<lparr> TRACKLE_MAX_PROPS_NUM = 4, TRACKLE_MAX_PROPGROUPS_NUM = 3,
     TRACKLE_MAX_PROP_NAME_LENGTH = 32 \<rparr>"

definition three_props :: props_state where
  "three_props =
     snd (Trackle_Prop_create demo_limits ''c'' 1 0 False
       (snd (Trackle_Prop_create demo_limits ''b'' 1 0 False
         (snd (Trackle_Prop_create demo_limits ''a'' 1 0 False (init_props_state demo_limits))))))"

definition two_groups :: props_state where
  "two_groups =
     snd (Trackle_PropGroup_create demo_limits 1000 True
       (snd (Trackle_PropGroup_create demo_limits 1000 True three_props)))"

text \<open>Adds the listed properties to one group in turn, stopping at the first refusal.\<close>

fun addProp_each :: "limits \<Rightarrow> int list \<Rightarrow> int \<Rightarrow> props_state \<Rightarrow> error + (bool \<times> props_state)" where
  "addProp_each L [] g st = Inr (True, st)"
| "addProp_each L (p # ps) g st =
     (case Trackle_PropGroup_addProp L p g st of
        Inr (True, st') \<Rightarrow> addProp_each L ps g st'
      | r \<Rightarrow> r)"

text \<open>The state after adding the three properties to the group with handle 2.\<close>

definition second_group_full :: props_state where
  "second_group_full = two_groups \<lparr> propGroups := (propGroups two_groups)[1 :=
      (propGroups two_groups ! 1) \<lparr> propsIndexes := [0, 1, 2, 0], propsWithin := 3 \<rparr>] \<rparr>"

text \<open>
  One unsigned integer property "speed" in one group with a period of 1000 ms that
  publishes only what changed.
\<close>

definition speed_grouped :: props_state where
  "speed_grouped =
     snd (Trackle_PropGroup_create demo_limits 1000 True
       (snd (Trackle_Prop_create demo_limits ''speed'' 1 0 False (init_props_state demo_limits))))"

definition speed_in_group :: props_state where
  "speed_in_group = speed_grouped \<lparr> propGroups := (propGroups speed_grouped)[0 :=
      (propGroups speed_grouped ! 0) \<lparr> propsIndexes := [0, 0, 0, 0], propsWithin := 1 \<rparr>] \<rparr>"

text \<open>
  The states this scenario goes through differ in the property's flags and values, in the
  group's wake time and in the task's \<open>first_run\<close>.
\<close>

definition speed_prop :: "bool \<Rightarrow> i32 \<Rightarrow> i32 \<Rightarrow> bool \<Rightarrow> u32 \<Rightarrow> Prop_t" where
  "speed_prop ch lastPub setV deb setTime =
     \<lparr> key = ''speed'', changed = ch, sign = False, lastPubValue = lastPub, setValue = setV,
       scale = 1, disabled = False, numDecimals = 0, setToPublish = False,
       lastPubStringValue = None, setStringValue = None, stringValueMaxLength = 0,
       debouncing = deb, latestSetTimeMs = setTime, debounceDelayMs = 0 \<rparr>"

definition speed_task :: "Prop_t \<Rightarrow> u32 \<Rightarrow> bool \<Rightarrow> task_state" where
  "speed_task p wake fr =
     \<lparr> propGroups =
         [\<lparr> onlyIfChanged = True, propsIndexes = [0, 0, 0, 0], propsWithin = 1,
            periodMs = 1000, latestWakeTimeMs = wake \<rparr>,
          zero_PropGroup demo_limits, zero_PropGroup demo_limits],
       numPropGroupsCreated = 1,
       props = [p, zero_Prop, zero_Prop, zero_Prop],
       numPropsCreated = 1, defaultValue = 0, defaultChanged = True,
       first_run = fr, jsonBuffer = [] \<rparr>"

text \<open>
  Two groups that are both due at 1000 ms, after the first successful publish: the first
  publishes only what changed and holds "a" (changed, 5 after 0) and "c" (changed but
  disabled); the second publishes always and holds "b" (unchanged).
\<close>

definition two_group_task :: task_state where
  "two_group_task =
     \<lparr> propGroups =
         [\<lparr> onlyIfChanged = True, propsIndexes = [0, 2, 0, 0], propsWithin = 2,
            periodMs = 1000, latestWakeTimeMs = 0 \<rparr>,
          \<lparr> onlyIfChanged = False, propsIndexes = [1, 0, 0, 0], propsWithin = 1,
            periodMs = 500, latestWakeTimeMs = 0 \<rparr>,
          zero_PropGroup demo_limits],
       numPropGroupsCreated = 2,
       props =
         [zero_Prop \<lparr> key := ''a'', changed := True, setValue := 5, scale := 1 \<rparr>,
          zero_Prop \<lparr> key := ''b'', setValue := 7, lastPubValue := 7, scale := 1 \<rparr>,
          zero_Prop \<lparr> key := ''c'', changed := True, setValue := 9, scale := 1, disabled := True \<rparr>,
          zero_Prop],
       numPropsCreated = 3, defaultValue = 0, defaultChanged = True,
       first_run = False, jsonBuffer = [] \<rparr>"

text \<open>
  The three properties and a string property "label" (at most 16 characters) that has
  been set to "running" at 50 ms.
\<close>

definition with_label :: props_state where
  "with_label =
     snd (Trackle_Prop_updateString 50 4 (Some ''running'')
       (snd (Trackle_Prop_createString demo_limits True True ''label'' 16 three_props)))"

text \<open>
  The "speed" scenario with a string value of 1100 characters, which a string property
  created with a maximal length of 2000 accepts.
\<close>

definition long_text_prop :: Prop_t where
  "long_text_prop =
     (speed_prop True 0 0 False 0)
       \<lparr> lastPubStringValue := Some [], setStringValue := Some (replicate 1100 CHR ''x''),
         stringValueMaxLength := 2000 \<rparr>"

definition one_notification :: notif_state where
  "one_notification =
     snd (Trackle_Notification_create ''over'' ''alarm'' ''%s:%u:%s'' 1 0 False init_notif_state)"

definition signed_minus_one :: Prop_t where
  "signed_minus_one = zero_Prop \<lparr> key := ''t'', sign := True, scale := 1, setValue := 0xFFFFFFFF \<rparr>"

definition unsigned_all_ones :: Prop_t where
  "unsigned_all_ones = zero_Prop \<lparr> key := ''t'', sign := False, scale := 1, setValue := 0xFFFFFFFF \<rparr>"

definition signed_minus_one_notification :: Notification_t where
  "signed_minus_one_notification =
     zero_Notification \<lparr> n_key := ''t'', n_format := ''%s:%u:%s'', n_sign := True, n_scale := 1,
                         n_value := 0xFFFFFFFF \<rparr>"

definition null_entry_notification :: Notification_t where
  "null_entry_notification =
     zero_Notification \<lparr> n_key := ''door'', n_format := ''%s:%u:%s'', n_sign := False,
                         n_scale := 100, n_numDecimals := 2, n_value := 1,
                         n_valueMap := Some [Some ''closed'', None], n_valueMapSize := 2 \<rparr>"

text \<open>
  The sentinels the specification documents for accessors called with an invalid handle:
  the empty string, -1 and false, as results of their C types.
\<close>

datatype c_result = ResString string | ResInt int | ResBool bool

definition documented_sentinels :: "c_result set" where
  "documented_sentinels = {ResString [], ResInt (- 1), ResBool False}"

section \<open>Verified properties\<close>

subsection \<open>Evaluation lemmas\<close>

lemmas demo_defs = demo_limits_def three_props_def two_groups_def second_group_full_def
  Trackle_Prop_create_def Trackle_PropGroup_create_def Trackle_PropGroup_addProp_def
  init_props_state_def zero_Prop_def zero_PropGroup_def Let_def eval_nat_numeral

lemmas notif_demo_defs = one_notification_def Trackle_Notification_create_def
  Trackle_Notification_createWithValueMap_def init_notif_state_def zero_Notification_def
  TRACKLE_MAX_NOTIFICATIONS_NUM_def NOTIFICATION_NAME_LENGTH_def NOTIFICATION_EVENT_LENGTH_def
  NOTIFICATION_FORMAT_LENGTH_def Let_def eval_nat_numeral

lemma dec_nat_max: "dec_nat 4294967295 = ''4294967295''"
  by (simp add: dec_nat.simps digit_char_def)

lemma print_u32_max: "print_u32 0xFFFFFFFF = ''4294967295''"
  by (simp add: print_u32_def dec_nat_max)

lemma print_i32_max: "print_i32 0xFFFFFFFF = ''-1''"
  by (simp add: print_i32_def dec_int_def dec_nat.simps digit_char_def)

lemma three_props_count: "numPropsCreated three_props = 3"
  by (simp add: demo_defs)

lemma one_notification_count: "numNotificationsCreated one_notification = 1"
  by (simp add: notif_demo_defs)

lemmas tick_defs = tick_def member_step_def members_def
  appendPropertyToJsonString_def isSetValueEqualToLastSent_def updateLastSentToSetValue_def
  clear_changed_of_published_def clear_setToPublish_def isMsElapsed_def UINT32_MAX_def
  JSON_BUFFER_LEN_def quoted_def print_u32_def print_i32_def dec_int_def dec_nat.simps
  digit_char_def speed_task_def speed_prop_def Let_def

lemma speed_added:
  "Trackle_PropGroup_addProp demo_limits 1 1 speed_grouped = Inr (True, speed_in_group)"
  by (simp add: speed_grouped_def speed_in_group_def demo_defs)

lemma speed_start:
  "task_start 0 speed_in_group = speed_task (speed_prop True 0 0 False 0) 0 True"
  by (simp add: task_start_def speed_task_def speed_prop_def speed_grouped_def
      speed_in_group_def demo_defs props_state.extend_def task_state.fields_def)

lemma speed_first_tick:
  "tick fmtd True (\<lambda>_. True) 100 (speed_task (speed_prop True 0 0 False 0) 0 True)
   = Inr (speed_task (speed_prop False 0 0 False 0) 100 False, Some ''{\"speed\":0}'')"
  by (simp add: tick_defs)

lemma speed_update:
  "Trackle_Prop_update 200 1 120 (speed_task (speed_prop False 0 0 False 0) 100 False)
   = (True, speed_task (speed_prop False 0 120 True 200) 100 False)"
  by (simp add: Trackle_Prop_update_def speed_task_def speed_prop_def)

lemma speed_failed_tick:
  "tick fmtd True (\<lambda>_. False) 1100 (speed_task (speed_prop False 0 120 True 200) 100 False)
   = Inr (speed_task (speed_prop True 120 120 False 200) 1100 False, Some ''{\"speed\":120}'')"
  by (simp add: tick_defs)

lemma speed_next_tick:
  "tick fmtd True (\<lambda>_. True) 2100 (speed_task (speed_prop True 120 120 False 200) 1100 False)
   = Inr (speed_task (speed_prop True 120 120 False 200) 2100 False, None)"
  by (simp add: tick_defs)

lemma speed_later_tick:
  "tick fmtd True (\<lambda>_. True) 3100 (speed_task (speed_prop True 120 120 False 200) 2100 False)
   = Inr (speed_task (speed_prop True 120 120 False 200) 3100 False, None)"
  by (simp add: tick_defs)

lemma speed_disconnected_tick:
  "tick fmtd False (\<lambda>_. True) 100 (speed_task (speed_prop True 0 0 False 0) 0 True)
   = Inr (speed_task (speed_prop True 0 0 False 0) 0 True, None)"
  by (simp add: tick_defs)

lemma speed_second_tick:
  "tick fmtd True (\<lambda>_. True) 200 (speed_task (speed_prop True 0 0 False 0) 0 True)
   = Inr (speed_task (speed_prop False 0 0 False 0) 200 False, Some ''{\"speed\":0}'')"
  by (simp add: tick_defs)

subsection \<open>A failed publish (C1)\<close>

text \<open>
  C1. The claim: when the batched publish fails, the changed flag of every staged property
  stays true and, at the next due cycle of its group, the same payload is built and sent
  again, also for a group that publishes only what changed. The task records the value as
  last published when it stages it, before the publish call. In the run below the first
  iteration publishes the initial value with success; the property is then updated to
  120; the iteration at 1100 ms stages it and its publish fails, which leaves the changed
  flag true and the last published value at 120; the iterations at 2100 ms and 3100 ms,
  both due, publish nothing.
\<close>

theorem failed_publish_is_not_retried:
  "Trackle_PropGroup_addProp demo_limits 1 1 speed_grouped = Inr (True, speed_in_group)
   \<and> run fmtd [Tick True True 100, Update 200 1 120, Tick True False 1100]
        (task_start 0 speed_in_group)
       = Inr (speed_task (speed_prop True 120 120 False 200) 1100 False,
              [Some ''{\"speed\":0}'', Some ''{\"speed\":120}''])
   \<and> run fmtd [Tick True True 100, Update 200 1 120, Tick True False 1100,
                Tick True True 2100, Tick True True 3100]
        (task_start 0 speed_in_group)
       = Inr (speed_task (speed_prop True 120 120 False 200) 3100 False,
              [Some ''{\"speed\":0}'', Some ''{\"speed\":120}'', None, None])"
  by (simp add: speed_added speed_start speed_first_tick speed_update speed_failed_tick
      speed_next_tick speed_later_tick)

subsection \<open>Formatting of integers (C2)\<close>

text \<open>
  For every numeric property with scale 1 the formatter prints the value as unsigned when
  the sign flag is set and as signed when it is clear.
\<close>

lemma appendProperty_integer_rendering:
  assumes "setStringValue p = None" and "scale p = 1"
  shows "render_member fmtd p
           = quoted (key p) @ '':'' @ (if sign p then print_u32 (setValue p)
                                        else print_i32 (setValue p))"
  using assms by (simp add: render_member_def appendPropertyToJsonString_def)

text \<open>
  C2. The claim: a numeric property with scale 1 is rendered as a signed decimal when its
  sign flag is true and as an unsigned decimal when it is false, as notifications are.
  \<open>appendPropertyToJsonString\<close> does the opposite. A property with the sign flag set and the
  value -1 is written as 4294967295; a property with the flag clear and the value
  4294967295 is written as -1; a notification with the flag set and the value -1 is
  written as -1.
\<close>

theorem property_sign_flag_inverted:
  "sint (setValue signed_minus_one) = - 1
   \<and> sign signed_minus_one = True
   \<and> appendPropertyToJsonString fmtd ''{'' signed_minus_one = ''{\"t\":4294967295''
   \<and> sign unsigned_all_ones = False
   \<and> unat (setValue unsigned_all_ones) = 4294967295
   \<and> appendPropertyToJsonString fmtd ''{'' unsigned_all_ones = ''{\"t\":-1''
   \<and> notification_valueBuffer fmtd signed_minus_one_notification = Inr ''-1''"
  by (simp add: signed_minus_one_def unsigned_all_ones_def signed_minus_one_notification_def
      zero_Prop_def zero_Notification_def appendPropertyToJsonString_def
      notification_valueBuffer_def quoted_def print_u32_max print_i32_max)

subsection \<open>Adding a property to a group (C3)\<close>

text \<open>
  Whatever the capacities are: with valid handles, the call is refused as soon as the
  group stored after the addressed one holds \<open>TRACKLE_MAX_PROPS_NUM - 1\<close> members or
  more, and for the last group of the table the capacity test reads outside the table.
\<close>

lemma addProp_refused_by_following_group:
  assumes "1 \<le> propGroupId" and "propGroupId \<le> int (numPropGroupsCreated st)"
      and "1 \<le> propId" and "propId \<le> int (numPropsCreated st)"
      and "nat propGroupId < length (propGroups st)"
      and "int (TRACKLE_MAX_PROPS_NUM L) - 1 \<le> int (propsWithin (propGroups st ! nat propGroupId))"
  shows "Trackle_PropGroup_addProp L propId propGroupId st = Inr (False, st)"
  using assms by (simp add: Trackle_PropGroup_addProp_def Let_def)

lemma addProp_last_group_out_of_bounds:
  assumes "1 \<le> propGroupId" and "propGroupId \<le> int (numPropGroupsCreated st)"
      and "1 \<le> propId" and "propId \<le> int (numPropsCreated st)"
      and "length (propGroups st) \<le> nat propGroupId"
  shows "Trackle_PropGroup_addProp L propId propGroupId st = Inl OutOfBounds"
  using assms by (simp add: Trackle_PropGroup_addProp_def Let_def)

text \<open>
  C3. The claim: \<open>Trackle_PropGroup_addProp\<close> succeeds exactly when both handles are valid,
  the group does not contain the property yet and the addressed group is below its
  capacity. The capacity test reads the group after the addressed one. With three
  properties and two groups, the three properties are accepted by the group with handle 2;
  after that the empty group with handle 1 refuses property 1.
\<close>

theorem addProp_reads_the_following_group:
  "addProp_each demo_limits [1, 2, 3] 2 two_groups = Inr (True, second_group_full)
   \<and> numPropGroupsCreated second_group_full = 2
   \<and> numPropsCreated second_group_full = 3
   \<and> propsWithin (propGroups second_group_full ! 0) = 0
   \<and> TRACKLE_MAX_PROPS_NUM demo_limits = 4
   \<and> Trackle_PropGroup_addProp demo_limits 1 1 second_group_full = Inr (False, second_group_full)"
  by (simp add: demo_defs)

subsection \<open>Elapsed time (C4)\<close>

text \<open>
  C4. For all 32-bit unsigned values, \<open>isMsElapsed now start delay\<close> holds exactly when
  \<open>(now - start) mod 2^32 \<ge> delay\<close>, the subtraction being taken on the unbounded
  integers; so it also holds when the counter wrapped between \<open>start\<close> and \<open>now\<close>.
\<close>

theorem isMsElapsed_wraparound:
  "isMsElapsed now start delay = ((uint now - uint start) mod 2 ^ 32 \<ge> uint delay)"
proof -
  have w: "now + UINT32_MAX - start + 1 = now - start"
    by (simp add: UINT32_MAX_def)
  have "isMsElapsed now start delay = (delay \<le> now - start)"
    by (simp add: isMsElapsed_def w)
  also have "\<dots> = (uint delay \<le> uint (now - start))"
    by (simp add: word_le_def)
  also have "uint (now - start) = (uint now - uint start) mod 2 ^ 32"
    by (simp add: uint_word_ariths)
  finally show ?thesis .
qed

theorem isMsElapsed_wraparound_witness:
  "isMsElapsed 5 0xFFFFFFFB 10 \<and> \<not> isMsElapsed 5 0xFFFFFFFB 11"
  using isMsElapsed_wraparound [of 5 "0xFFFFFFFB" 10] isMsElapsed_wraparound [of 5 "0xFFFFFFFB" 11]
  by simp

subsection \<open>Composition of a batch (C5)\<close>

lemma join_commas_snoc:
  "join_commas (xs @ [x]) = (if xs = [] then x else join_commas xs @ '','' @ x)"
  by (induction xs rule: join_commas.induct) auto

lemma join_commas_append_length:
  "length (join_commas xs) \<le> length (join_commas (xs @ ys))"
proof (induction ys rule: rev_induct)
  case Nil
  then show ?case by simp
next
  case (snoc y ys)
  have "length (join_commas (xs @ ys)) \<le> length (join_commas ((xs @ ys) @ [y]))"
    by (simp only: join_commas_snoc) simp
  with snoc show ?case by simp
qed

lemma render_member_nonempty: "render_member fmtd p \<noteq> []"
  by (simp add: render_member_def appendPropertyToJsonString_def quoted_def split: option.split)

lemma join_commas_nonempty:
  "xs \<noteq> [] \<Longrightarrow> \<forall>x \<in> set xs. x \<noteq> [] \<Longrightarrow> join_commas xs \<noteq> []"
  by (induction xs rule: join_commas.induct) auto

lemma appendProperty_render:
  "appendPropertyToJsonString fmtd b p
     = (if length b > 1 then b @ '','' else b) @ render_member fmtd p"
  by (simp add: render_member_def appendPropertyToJsonString_def split: option.split)

lemma render_member_cong:
  "key q = key p \<Longrightarrow> setStringValue q = setStringValue p \<Longrightarrow> scale q = scale p
   \<Longrightarrow> sign q = sign p \<Longrightarrow> setValue q = setValue p \<Longrightarrow> numDecimals q = numDecimals p
   \<Longrightarrow> render_member fmtd q = render_member fmtd p"
  by (simp add: render_member_def appendPropertyToJsonString_def split: option.split)

lemma render_promote: "render_member fmtd (promote nowMs p) = render_member fmtd p"
  by (rule render_member_cong) (simp_all add: promote_def)

lemma render_mark_staged: "render_member fmtd (mark_staged p) = render_member fmtd p"
  by (rule render_member_cong)
     (simp_all add: mark_staged_def updateLastSentToSetValue_def split: option.split)

lemma promote_idem: "promote nowMs (promote nowMs p) = promote nowMs p"
  by (simp add: promote_def)

lemma promote_mark_staged:
  "promote nowMs (mark_staged (promote nowMs p)) = mark_staged (promote nowMs p)"
  by (auto simp add: promote_def mark_staged_def updateLastSentToSetValue_def split: option.split)

lemma mark_staged_idem: "mark_staged (mark_staged p) = mark_staged p"
  by (simp add: mark_staged_def updateLastSentToSetValue_def split: option.split)

lemma publish_test_promote:
  "publish_test oic fr (promote nowMs p) = staging_condition nowMs fr oic p"
  by (auto simp add: publish_test_def promote_def staging_condition_def spec_staged_def changed_after_debounce_def
      isSetValueEqualToLastSent_def split: option.split)

lemma publish_test_mark_staged:
  "publish_test oic fr (mark_staged (promote nowMs p)) = (\<not> disabled p \<and> (\<not> oic \<or> fr))"
  by (auto simp add: publish_test_def promote_def mark_staged_def updateLastSentToSetValue_def
      isSetValueEqualToLastSent_def split: option.split)

lemma staging_condition_always:
  "\<not> disabled p \<and> (\<not> oic \<or> fr) \<Longrightarrow> staging_condition nowMs fr oic p"
  by (auto simp add: staging_condition_def spec_staged_def)

lemma staging_condition_enabled:
  "staging_condition nowMs fr oic p \<Longrightarrow> \<not> disabled p"
  by (simp add: staging_condition_def spec_staged_def)

lemma member_step_unfold:
  "i < length ps \<Longrightarrow>
   member_step fmtd nowMs oic fr i (ps, buf, tp) =
     (if publish_test oic fr (promote nowMs (ps ! i)) then
        (if length (appendPropertyToJsonString fmtd (if \<not> tp then buf @ ''{'' else buf)
                     (promote nowMs (ps ! i))) \<ge> JSON_BUFFER_LEN
         then Inl OutOfBounds
         else Inr (ps[i := mark_staged (promote nowMs (ps ! i))],
                   appendPropertyToJsonString fmtd (if \<not> tp then buf @ ''{'' else buf)
                     (promote nowMs (ps ! i)), True))
      else Inr (ps[i := promote nowMs (ps ! i)], buf, tp))"
  by (simp add: member_step_def publish_test_def promote_def mark_staged_def Let_def)

lemma stage_next_simp:
  "stage_next nowMs fr ps0 L (oic, i) =
     (if staging_condition nowMs fr oic (ps0 ! i) \<and> (i \<notin> set L \<or> \<not> oic \<or> fr)
      then L @ [i] else L)"
  by (simp add: stage_next_def)

lemma buffer_of_snoc:
  "appendPropertyToJsonString fmtd
      (if \<not> (L \<noteq> []) then buffer_of fmtd ps0 L @ ''{'' else buffer_of fmtd ps0 L) q
     = buffer_of fmtd ps0 (L @ [i])"
  if "render_member fmtd q = render_member fmtd (ps0 ! i)"
proof (cases "L = []")
  case True
  then show ?thesis
    using that by (simp add: buffer_of_def appendProperty_render)
next
  case False
  then have "join_commas (map (\<lambda>i. render_member fmtd (ps0 ! i)) L) \<noteq> []"
    by (intro join_commas_nonempty) (auto simp add: render_member_nonempty)
  then have "length (buffer_of fmtd ps0 L) > 1"
    using False by (simp add: buffer_of_def Suc_le_eq)
  then show ?thesis
    using that False by (simp add: buffer_of_def appendProperty_render join_commas_snoc)
qed

lemma member_step_tracks:
  assumes tr: "tracks nowMs ps0 L ps" and i: "i < length ps0"
      and fit: "length (buffer_of fmtd ps0 (stage_next nowMs fr ps0 L (oic, i))) < JSON_BUFFER_LEN"
  shows "\<exists>ps'. member_step fmtd nowMs oic fr i (ps, buffer_of fmtd ps0 L, L \<noteq> [])
              = Inr (ps', buffer_of fmtd ps0 (stage_next nowMs fr ps0 L (oic, i)),
                     stage_next nowMs fr ps0 L (oic, i) \<noteq> [])
            \<and> tracks nowMs ps0 (stage_next nowMs fr ps0 L (oic, i)) ps'"
proof -
  let ?p0 = "ps0 ! i"
  let ?q = "promote nowMs (ps ! i)"
  from tr have len: "length ps = length ps0"
    by (simp add: tracks_def)
  from tr i have at_i: "if i \<in> set L then ps ! i = mark_staged (promote nowMs ?p0)
                        else ps ! i = ?p0 \<or> ps ! i = promote nowMs ?p0"
    by (simp add: tracks_def)
  have q: "?q = (if i \<in> set L then mark_staged (promote nowMs ?p0) else promote nowMs ?p0)"
    using at_i by (auto simp add: promote_idem promote_mark_staged split: if_splits)
  have test: "publish_test oic fr ?q
                = (staging_condition nowMs fr oic ?p0 \<and> (i \<notin> set L \<or> \<not> oic \<or> fr))"
    using staging_condition_always [of ?p0 oic fr nowMs] staging_condition_enabled [of nowMs fr oic ?p0]
    by (auto simp add: q publish_test_promote publish_test_mark_staged)
  have rq: "render_member fmtd ?q = render_member fmtd ?p0"
    by (simp add: q render_promote render_mark_staged)
  have mq: "mark_staged ?q = mark_staged (promote nowMs ?p0)"
    by (simp add: q mark_staged_idem)
  show ?thesis
  proof (cases "publish_test oic fr ?q")
    case True
    with test have "staging_condition nowMs fr oic ?p0 \<and> (i \<notin> set L \<or> \<not> oic \<or> fr)"
      by blast
    then have L': "stage_next nowMs fr ps0 L (oic, i) = L @ [i]"
      by (simp only: stage_next_simp if_True simp_thms)
    have buf: "appendPropertyToJsonString fmtd
                 (if \<not> (L \<noteq> []) then buffer_of fmtd ps0 L @ ''{'' else buffer_of fmtd ps0 L) ?q
               = buffer_of fmtd ps0 (L @ [i])"
      by (rule buffer_of_snoc) (rule rq)
    have tr': "tracks nowMs ps0 (L @ [i]) (ps[i := mark_staged ?q])"
      unfolding tracks_def
    proof (intro conjI allI impI)
      show "length (ps[i := mark_staged ?q]) = length ps0" by (simp add: len)
    next
      fix j assume j: "j < length ps0"
      show "if j \<in> set (L @ [i])
            then ps[i := mark_staged ?q] ! j = mark_staged (promote nowMs (ps0 ! j))
            else ps[i := mark_staged ?q] ! j = ps0 ! j
               \<or> ps[i := mark_staged ?q] ! j = promote nowMs (ps0 ! j)"
      proof (cases "j = i")
        case True
        then show ?thesis using i len by (simp add: mq)
      next
        case False
        then show ?thesis using tr j by (simp add: tracks_def)
      qed
    qed
    from fit have nofl: "\<not> JSON_BUFFER_LEN \<le> length (buffer_of fmtd ps0 (L @ [i]))"
      by (simp add: L')
    have "member_step fmtd nowMs oic fr i (ps, buffer_of fmtd ps0 L, L \<noteq> [])
            = Inr (ps[i := mark_staged ?q], buffer_of fmtd ps0 (L @ [i]), True)"
      using i len True nofl by (simp only: member_step_unfold buf if_True if_False)
    then show ?thesis using tr' by (simp add: L')
  next
    case False
    with test have "\<not> (staging_condition nowMs fr oic ?p0 \<and> (i \<notin> set L \<or> \<not> oic \<or> fr))"
      by blast
    then have L': "stage_next nowMs fr ps0 L (oic, i) = L"
      by (simp only: stage_next_simp if_False simp_thms)
    have tr': "tracks nowMs ps0 L (ps[i := ?q])"
      unfolding tracks_def
    proof (intro conjI allI impI)
      show "length (ps[i := ?q]) = length ps0" by (simp add: len)
    next
      fix j assume j: "j < length ps0"
      show "if j \<in> set L
            then ps[i := ?q] ! j = mark_staged (promote nowMs (ps0 ! j))
            else ps[i := ?q] ! j = ps0 ! j \<or> ps[i := ?q] ! j = promote nowMs (ps0 ! j)"
      proof (cases "j = i")
        case True
        then show ?thesis using i len by (simp add: q)
      next
        case False
        then show ?thesis using tr j by (simp add: tracks_def)
      qed
    qed
    have "member_step fmtd nowMs oic fr i (ps, buffer_of fmtd ps0 L, L \<noteq> [])
            = Inr (ps[i := ?q], buffer_of fmtd ps0 L, L \<noteq> [])"
      using i len False by (simp add: member_step_unfold)
    then show ?thesis using tr' by (simp add: L')
  qed
qed

lemma stage_walk_prefix:
  "\<exists>X. foldl (stage_next nowMs fr ps0) L es = L @ X"
proof (induction es arbitrary: L)
  case Nil
  then show ?case by simp
next
  case (Cons e es)
  obtain oic i where e: "e = (oic, i)" by (cases e)
  from Cons [of "stage_next nowMs fr ps0 L e"]
  obtain X where "foldl (stage_next nowMs fr ps0) (stage_next nowMs fr ps0 L e) es
                    = stage_next nowMs fr ps0 L e @ X" ..
  then show ?case
    by (cases "staging_condition nowMs fr oic (ps0 ! i) \<and> (i \<notin> set L \<or> \<not> oic \<or> fr)")
       (simp_all add: e stage_next_simp)
qed

lemma buffer_of_mono:
  "length (buffer_of fmtd ps0 L) \<le> length (buffer_of fmtd ps0 (L @ X))"
  by (simp add: buffer_of_def join_commas_append_length)

lemma stage_walk_fit:
  assumes "length (buffer_of fmtd ps0 (foldl (stage_next nowMs fr ps0) L es)) < n"
  shows "length (buffer_of fmtd ps0 L) < n"
proof -
  obtain X where "foldl (stage_next nowMs fr ps0) L es = L @ X"
    using stage_walk_prefix by blast
  with assms buffer_of_mono [of fmtd ps0 L X] show ?thesis by simp
qed

lemma members_loop_Cons:
  "member_step fmtd nowMs oic fr i a = Inr a1 \<Longrightarrow>
   members_loop fmtd nowMs oic fr (i # is) a = members_loop fmtd nowMs oic fr is a1"
  by simp

lemma members_loop_tracks:
  assumes "tracks nowMs ps0 L ps" and "\<forall>i \<in> set is. i < length ps0"
      and "length (buffer_of fmtd ps0 (foldl (stage_next nowMs fr ps0) L (map (Pair oic) is)))
             < JSON_BUFFER_LEN"
  shows "\<exists>ps'. members_loop fmtd nowMs oic fr is (ps, buffer_of fmtd ps0 L, L \<noteq> [])
              = Inr (ps', buffer_of fmtd ps0 (foldl (stage_next nowMs fr ps0) L (map (Pair oic) is)),
                     foldl (stage_next nowMs fr ps0) L (map (Pair oic) is) \<noteq> [])
            \<and> tracks nowMs ps0 (foldl (stage_next nowMs fr ps0) L (map (Pair oic) is)) ps'"
  using assms
proof (induction "is" arbitrary: L ps)
  case Nil
  then show ?case by simp
next
  case (Cons i "is")
  let ?L1 = "stage_next nowMs fr ps0 L (oic, i)"
  have eq: "foldl (stage_next nowMs fr ps0) L (map (Pair oic) (i # is))
              = foldl (stage_next nowMs fr ps0) ?L1 (map (Pair oic) is)"
    by simp
  from Cons.prems(3)
  have fit: "length (buffer_of fmtd ps0 (foldl (stage_next nowMs fr ps0) ?L1 (map (Pair oic) is)))
               < JSON_BUFFER_LEN"
    by (simp only: eq)
  then have fit1: "length (buffer_of fmtd ps0 ?L1) < JSON_BUFFER_LEN"
    by (rule stage_walk_fit)
  from Cons.prems(2) have i: "i < length ps0" and rest: "\<forall>i \<in> set is. i < length ps0"
    by simp_all
  from member_step_tracks [OF Cons.prems(1) i fit1]
  obtain ps1 where step: "member_step fmtd nowMs oic fr i (ps, buffer_of fmtd ps0 L, L \<noteq> [])
                            = Inr (ps1, buffer_of fmtd ps0 ?L1, ?L1 \<noteq> [])"
    and tr1: "tracks nowMs ps0 ?L1 ps1"
    by blast
  show ?case
    unfolding eq members_loop_Cons [OF step]
    by (rule Cons.IH [OF tr1 rest fit])
qed

lemma visits_due:
  "due nowMs fr g \<Longrightarrow>
   visits nowMs fr (g # gs) = map (Pair (onlyIfChanged g)) (members g) @ visits nowMs fr gs"
  by (simp add: visits_def)

lemma visits_not_due:
  "\<not> due nowMs fr g \<Longrightarrow> visits nowMs fr (g # gs) = visits nowMs fr gs"
  by (simp add: visits_def)

lemma groups_loop_due:
  "due nowMs fr g \<Longrightarrow> propsWithin g \<le> length (propsIndexes g) \<Longrightarrow>
   members_loop fmtd nowMs (onlyIfChanged g) fr (members g) a = Inr a1 \<Longrightarrow>
   groups_loop fmtd nowMs fr gs a1 = Inr (gs', a2) \<Longrightarrow>
   groups_loop fmtd nowMs fr (g # gs) a = Inr (g \<lparr> latestWakeTimeMs := nowMs \<rparr> # gs', a2)"
  by (simp add: due_def)

lemma groups_loop_not_due:
  "\<not> due nowMs fr g \<Longrightarrow> groups_loop fmtd nowMs fr gs a = Inr (gs', a2) \<Longrightarrow>
   groups_loop fmtd nowMs fr (g # gs) a = Inr (g # gs', a2)"
  by (simp add: due_def)

lemma groups_loop_tracks:
  assumes "tracks nowMs ps0 L ps"
      and "\<forall>g \<in> set gs. due nowMs fr g \<longrightarrow>
             propsWithin g \<le> length (propsIndexes g) \<and> (\<forall>i \<in> set (members g). i < length ps0)"
      and "length (buffer_of fmtd ps0 (foldl (stage_next nowMs fr ps0) L (visits nowMs fr gs)))
             < JSON_BUFFER_LEN"
  shows "\<exists>gs' ps'. groups_loop fmtd nowMs fr gs (ps, buffer_of fmtd ps0 L, L \<noteq> [])
              = Inr (gs', ps', buffer_of fmtd ps0 (foldl (stage_next nowMs fr ps0) L (visits nowMs fr gs)),
                     foldl (stage_next nowMs fr ps0) L (visits nowMs fr gs) \<noteq> [])
            \<and> tracks nowMs ps0 (foldl (stage_next nowMs fr ps0) L (visits nowMs fr gs)) ps'"
  using assms
proof (induction gs arbitrary: L ps)
  case Nil
  then show ?case by (simp add: visits_def)
next
  case (Cons g gs)
  from Cons.prems(2)
  have rest: "\<forall>g \<in> set gs. due nowMs fr g \<longrightarrow>
             propsWithin g \<le> length (propsIndexes g) \<and> (\<forall>i \<in> set (members g). i < length ps0)"
    by simp
  show ?case
  proof (cases "due nowMs fr g")
    case True
    let ?L1 = "foldl (stage_next nowMs fr ps0) L (map (Pair (onlyIfChanged g)) (members g))"
    have eq: "foldl (stage_next nowMs fr ps0) L (visits nowMs fr (g # gs))
                = foldl (stage_next nowMs fr ps0) ?L1 (visits nowMs fr gs)"
      by (simp only: visits_due [OF True] foldl_append)
    from True Cons.prems(2)
    have cnt: "propsWithin g \<le> length (propsIndexes g)"
      and rng: "\<forall>i \<in> set (members g). i < length ps0"
      by simp_all
    from Cons.prems(3)
    have fit: "length (buffer_of fmtd ps0 (foldl (stage_next nowMs fr ps0) ?L1 (visits nowMs fr gs)))
                 < JSON_BUFFER_LEN"
      by (simp only: eq)
    then have fit1: "length (buffer_of fmtd ps0 ?L1) < JSON_BUFFER_LEN"
      by (rule stage_walk_fit)
    from members_loop_tracks [OF Cons.prems(1) rng fit1]
    obtain ps1 where inner: "members_loop fmtd nowMs (onlyIfChanged g) fr (members g)
                               (ps, buffer_of fmtd ps0 L, L \<noteq> [])
                             = Inr (ps1, buffer_of fmtd ps0 ?L1, ?L1 \<noteq> [])"
      and tr1: "tracks nowMs ps0 ?L1 ps1"
      by blast
    from Cons.IH [OF tr1 rest fit]
    obtain gs' ps' where
      outer: "groups_loop fmtd nowMs fr gs (ps1, buffer_of fmtd ps0 ?L1, ?L1 \<noteq> [])
                = Inr (gs', ps', buffer_of fmtd ps0 (foldl (stage_next nowMs fr ps0) ?L1 (visits nowMs fr gs)),
                       foldl (stage_next nowMs fr ps0) ?L1 (visits nowMs fr gs) \<noteq> [])"
      and tr': "tracks nowMs ps0 (foldl (stage_next nowMs fr ps0) ?L1 (visits nowMs fr gs)) ps'"
      by blast
    show ?thesis
      unfolding eq
      using groups_loop_due [OF True cnt inner outer] tr' by blast
  next
    case False
    have eq: "foldl (stage_next nowMs fr ps0) L (visits nowMs fr (g # gs))
                = foldl (stage_next nowMs fr ps0) L (visits nowMs fr gs)"
      by (simp only: visits_not_due [OF False])
    from Cons.prems(3)
    have fit: "length (buffer_of fmtd ps0 (foldl (stage_next nowMs fr ps0) L (visits nowMs fr gs)))
                 < JSON_BUFFER_LEN"
      by (simp only: eq)
    from Cons.IH [OF Cons.prems(1) rest fit]
    obtain gs' ps' where
      outer: "groups_loop fmtd nowMs fr gs (ps, buffer_of fmtd ps0 L, L \<noteq> [])
                = Inr (gs', ps', buffer_of fmtd ps0 (foldl (stage_next nowMs fr ps0) L (visits nowMs fr gs)),
                       foldl (stage_next nowMs fr ps0) L (visits nowMs fr gs) \<noteq> [])"
      and tr': "tracks nowMs ps0 (foldl (stage_next nowMs fr ps0) L (visits nowMs fr gs)) ps'"
      by blast
    show ?thesis
      unfolding eq
      using groups_loop_not_due [OF False outer] tr' by blast
  qed
qed

lemma stage_walk_set:
  "set (foldl (stage_next nowMs fr ps) L es)
     = set L \<union> {i. \<exists>oic. (oic, i) \<in> set es \<and> staging_condition nowMs fr oic (ps ! i)}"
proof (induction es arbitrary: L)
  case Nil
  then show ?case by simp
next
  case (Cons e es)
  obtain oic i where e: "e = (oic, i)" by (cases e)
  have "set (stage_next nowMs fr ps L (oic, i))
          = set L \<union> (if staging_condition nowMs fr oic (ps ! i) then {i} else {})"
    using staging_condition_always [of "ps ! i" oic fr nowMs]
    by (auto simp add: stage_next_simp)
  then show ?case
    by (auto simp add: Cons.IH e)
qed

lemma stage_walk_distinct:
  assumes "distinct (map snd es)" and "set L \<inter> snd ` set es = {}"
  shows "foldl (stage_next nowMs fr ps) L es
           = L @ map snd (filter (\<lambda>(oic, i). staging_condition nowMs fr oic (ps ! i)) es)"
  using assms
proof (induction es arbitrary: L)
  case Nil
  then show ?case by simp
next
  case (Cons e es)
  obtain oic i where e: "e = (oic, i)" by (cases e)
  from Cons.prems(2) have fresh: "i \<notin> set L" by (simp add: e)
  let ?L1 = "stage_next nowMs fr ps L (oic, i)"
  have L1: "?L1 = (if staging_condition nowMs fr oic (ps ! i) then L @ [i] else L)"
    using fresh by (simp add: stage_next_simp)
  from Cons.prems have d: "distinct (map snd es)" and ni: "i \<notin> snd ` set es"
    by (simp_all add: e)
  from Cons.prems(2) ni have disj: "set ?L1 \<inter> snd ` set es = {}"
    by (auto simp add: L1 e)
  from Cons.IH [OF d disj] show ?case
    by (simp add: e L1)
qed

lemma encounters_visits:
  "encounters nowMs st = visits nowMs (first_run st) (take (numPropGroupsCreated st) (propGroups st))"
proof -
  have "due nowMs (first_run st)
          = (\<lambda>g. isMsElapsed nowMs (latestWakeTimeMs g) (periodMs g) \<or> first_run st)"
    by (rule ext) (simp add: due_def)
  then show ?thesis
    by (simp add: encounters_def visits_def due_groups_def)
qed

lemma visited_members:
  "{i. \<exists>oic. (oic, i) \<in> set (concat (map (\<lambda>g. map (Pair (onlyIfChanged g)) (members g)) gs))
            \<and> P oic i}
     = {i. \<exists>g \<in> set gs. i \<in> set (members g) \<and> P (onlyIfChanged g) i}"
  by auto

lemma visited_indices:
  "map snd (concat (map (\<lambda>g. map (Pair (onlyIfChanged g)) (members g)) gs))
     = concat (map members gs)"
  by (induction gs) (simp_all add: comp_def)

lemma visited_filter:
  "map snd (filter (\<lambda>(oic, i). P oic i)
              (concat (map (\<lambda>g. map (Pair (onlyIfChanged g)) (members g)) gs)))
     = concat (map (\<lambda>g. filter (P (onlyIfChanged g)) (members g)) gs)"
  by (induction gs) (simp_all add: filter_map comp_def)

lemma tracks_start: "tracks nowMs ps0 [] ps0"
  by (simp add: tracks_def)

lemma batch_payload_buffer:
  "L \<noteq> [] \<Longrightarrow> batch_payload fmtd ps0 L = Some (buffer_of fmtd ps0 L @ ''}'')"
  by (simp add: batch_payload_def buffer_of_def)

lemma tick_publishes_staged_sequence:
  assumes empty: "jsonBuffer st = []"
      and wf: "\<forall>g \<in> set (due_groups nowMs st).
                 propsWithin g \<le> length (propsIndexes g)
                 \<and> (\<forall>i \<in> set (members g). i < length (props st))"
      and fits: "\<forall>s. batch_payload fmtd (props st) (staged_sequence nowMs st) = Some s
                   \<longrightarrow> length s < JSON_BUFFER_LEN"
  shows "\<exists>st'. tick fmtd True sync nowMs st
                 = Inr (st', batch_payload fmtd (props st) (staged_sequence nowMs st))"
proof -
  let ?gs = "take (numPropGroupsCreated st) (propGroups st)"
  let ?L = "staged_sequence nowMs st"
  have L: "?L = foldl (stage_next nowMs (first_run st) (props st)) [] (visits nowMs (first_run st) ?gs)"
    by (simp add: staged_sequence_def encounters_visits)
  have wf': "\<forall>g \<in> set ?gs. due nowMs (first_run st) g \<longrightarrow>
               propsWithin g \<le> length (propsIndexes g)
               \<and> (\<forall>i \<in> set (members g). i < length (props st))"
    using wf by (simp add: due_groups_def due_def)
  have fit: "length (buffer_of fmtd (props st) ?L) < JSON_BUFFER_LEN"
  proof (cases "?L = []")
    case True
    then show ?thesis by (simp add: buffer_of_def JSON_BUFFER_LEN_def)
  next
    case False
    with fits have "length (buffer_of fmtd (props st) ?L @ ''}'') < JSON_BUFFER_LEN"
      by (simp add: batch_payload_buffer)
    then show ?thesis by simp
  qed
  from groups_loop_tracks [OF tracks_start wf' fit [unfolded L]]
  obtain gs' ps' where
    loop0: "groups_loop fmtd nowMs (first_run st) ?gs
              (props st, buffer_of fmtd (props st) [], ([]::nat list) \<noteq> [])
            = Inr (gs', ps',
                buffer_of fmtd (props st)
                  (foldl (stage_next nowMs (first_run st) (props st)) []
                     (visits nowMs (first_run st) ?gs)),
                foldl (stage_next nowMs (first_run st) (props st)) []
                  (visits nowMs (first_run st) ?gs) \<noteq> [])"
    by blast
  have b0: "buffer_of fmtd (props st) [] = jsonBuffer st"
    by (simp add: empty buffer_of_def)
  have loop: "groups_loop fmtd nowMs (first_run st) ?gs (props st, jsonBuffer st, False)
             = Inr (gs', ps', buffer_of fmtd (props st) ?L, ?L \<noteq> [])"
    using loop0 unfolding b0 L by simp
  show ?thesis
  proof (cases "?L = []")
    case True
    with loop show ?thesis
      by (simp add: tick_def batch_payload_def Let_def)
  next
    case False
    with fits have "\<not> JSON_BUFFER_LEN \<le> length (buffer_of fmtd (props st) ?L @ ''}'')"
      by (simp add: batch_payload_buffer)
    with loop False show ?thesis
      by (simp add: tick_def batch_payload_buffer Let_def)
  qed
qed

text \<open>The latch and the buffer across an iteration and across a run.\<close>

lemma tick_latch:
  assumes "tick fmtd connected sync nowMs st = Inr (st', out)"
  shows "first_run st' = (first_run st \<and> \<not> (\<exists>s. out = Some s \<and> sync s))"
  using assms
  by (auto simp add: tick_def Let_def split: sum.splits prod.splits if_splits)

lemma member_step_keeps:
  assumes "member_step fmtd nowMs oic fr i (ps, buf, tp) = Inr (ps', buf', tp')"
  shows "tp' \<or> (buf' = buf \<and> \<not> tp)"
  using assms
  by (auto simp add: member_step_def Let_def split: if_splits)

lemma members_loop_keeps:
  assumes "members_loop fmtd nowMs oic fr is (ps, buf, tp) = Inr (ps', buf', tp')"
  shows "tp' \<or> (buf' = buf \<and> \<not> tp)"
  using assms
proof (induction "is" arbitrary: ps buf tp)
  case Nil
  then show ?case by simp
next
  case (Cons i "is")
  from Cons.prems obtain ps1 buf1 tp1 where
    step: "member_step fmtd nowMs oic fr i (ps, buf, tp) = Inr (ps1, buf1, tp1)"
    and rest: "members_loop fmtd nowMs oic fr is (ps1, buf1, tp1) = Inr (ps', buf', tp')"
    by (auto split: sum.splits)
  from member_step_keeps [OF step] Cons.IH [OF rest] show ?case by blast
qed

lemma groups_loop_keeps:
  assumes "groups_loop fmtd nowMs fr gs (ps, buf, tp) = Inr (gs', ps', buf', tp')"
  shows "tp' \<or> (buf' = buf \<and> \<not> tp)"
  using assms
proof (induction gs arbitrary: ps buf tp gs')
  case Nil
  then show ?case by simp
next
  case (Cons g gs)
  show ?case
  proof (cases "isMsElapsed nowMs (latestWakeTimeMs g) (periodMs g) \<or> fr")
    case True
    with Cons.prems obtain ps1 buf1 tp1 gs1 where
      inner: "members_loop fmtd nowMs (onlyIfChanged g) fr (members g) (ps, buf, tp)
                = Inr (ps1, buf1, tp1)"
      and rest: "groups_loop fmtd nowMs fr gs (ps1, buf1, tp1) = Inr (gs1, ps', buf', tp')"
      by (auto split: sum.splits if_splits)
    from members_loop_keeps [OF inner] Cons.IH [OF rest] show ?thesis by blast
  next
    case False
    with Cons.prems obtain gs1 where
      rest: "groups_loop fmtd nowMs fr gs (ps, buf, tp) = Inr (gs1, ps', buf', tp')"
      by (auto split: sum.splits)
    from Cons.IH [OF rest] show ?thesis .
  qed
qed

lemma tick_empties_buffer:
  assumes "tick fmtd connected sync nowMs st = Inr (st', out)" and "jsonBuffer st = []"
  shows "jsonBuffer st' = []"
proof (cases connected)
  case False
  with assms show ?thesis by (simp add: tick_def)
next
  case True
  with assms(1) obtain gs' ps' buf' tp' where
    loop: "groups_loop fmtd nowMs (first_run st) (take (numPropGroupsCreated st) (propGroups st))
             (props st, jsonBuffer st, False) = Inr (gs', ps', buf', tp')"
    by (auto simp add: tick_def Let_def split: sum.splits)
  from groups_loop_keeps [OF loop] assms(2) have "tp' \<or> buf' = []" by auto
  with assms(1) True loop show ?thesis
    by (auto simp add: tick_def Let_def split: if_splits)
qed

lemma update_keeps_task_locals:
  "first_run (snd (Trackle_Prop_update nowMs propID v st)) = first_run st
   \<and> jsonBuffer (snd (Trackle_Prop_update nowMs propID v st)) = jsonBuffer st"
  by (simp add: Trackle_Prop_update_def Let_def)

lemma run_latch:
  assumes "run fmtd es st = Inr (st', outs)"
  shows "first_run st' = (first_run st \<and> \<not> publish_succeeded es outs)
         \<and> (jsonBuffer st = [] \<longrightarrow> jsonBuffer st' = [])"
  using assms
proof (induction fmtd es st arbitrary: st' outs rule: run.induct)
  case (1 fmtd st)
  then show ?case by simp
next
  case (2 fmtd connected ok nowMs es st)
  from "2.prems" obtain st1 out outs1 where
    t: "tick fmtd connected (\<lambda>_. ok) nowMs st = Inr (st1, out)"
    and r: "run fmtd es st1 = Inr (st', outs1)"
    and o: "outs = out # outs1"
    by (auto split: sum.splits)
  from "2.IH" [OF t refl r]
  have ih: "first_run st' = (first_run st1 \<and> \<not> publish_succeeded es outs1)
            \<and> (jsonBuffer st1 = [] \<longrightarrow> jsonBuffer st' = [])" .
  from tick_latch [OF t] tick_empties_buffer [OF t] ih show ?case
    by (auto simp add: o)
next
  case (3 fmtd nowMs propID v es st)
  from "3.prems" have r: "run fmtd es (snd (Trackle_Prop_update nowMs propID v st)) = Inr (st', outs)"
    by simp
  from "3.IH" [OF r] update_keeps_task_locals [of nowMs propID v st] show ?case
    by simp
qed

lemma task_start_locals: "first_run (task_start t0 g) = True \<and> jsonBuffer (task_start t0 g) = []"
  by (simp add: task_start_def props_state.extend_def task_state.fields_def)

text \<open>A payload that does not fit the buffer.\<close>

lemma member_step_overrun:
  assumes tr: "tracks nowMs ps0 L ps" and i: "i < length ps0"
      and cur: "length (buffer_of fmtd ps0 L) < JSON_BUFFER_LEN"
      and over: "\<not> length (buffer_of fmtd ps0 (stage_next nowMs fr ps0 L (oic, i))) < JSON_BUFFER_LEN"
  shows "member_step fmtd nowMs oic fr i (ps, buffer_of fmtd ps0 L, L \<noteq> []) = Inl OutOfBounds"
proof -
  let ?p0 = "ps0 ! i"
  let ?q = "promote nowMs (ps ! i)"
  from tr have len: "length ps = length ps0"
    by (simp add: tracks_def)
  from tr i have at_i: "if i \<in> set L then ps ! i = mark_staged (promote nowMs ?p0)
                        else ps ! i = ?p0 \<or> ps ! i = promote nowMs ?p0"
    by (simp add: tracks_def)
  have q: "?q = (if i \<in> set L then mark_staged (promote nowMs ?p0) else promote nowMs ?p0)"
    using at_i by (auto simp add: promote_idem promote_mark_staged split: if_splits)
  have test: "publish_test oic fr ?q
                = (staging_condition nowMs fr oic ?p0 \<and> (i \<notin> set L \<or> \<not> oic \<or> fr))"
    using staging_condition_always [of ?p0 oic fr nowMs] staging_condition_enabled [of nowMs fr oic ?p0]
    by (auto simp add: q publish_test_promote publish_test_mark_staged)
  have rq: "render_member fmtd ?q = render_member fmtd ?p0"
    by (simp add: q render_promote render_mark_staged)
  from cur over have "stage_next nowMs fr ps0 L (oic, i) \<noteq> L"
    by auto
  then have c: "staging_condition nowMs fr oic ?p0 \<and> (i \<notin> set L \<or> \<not> oic \<or> fr)"
    by (auto simp add: stage_next_simp split: if_splits)
  then have L': "stage_next nowMs fr ps0 L (oic, i) = L @ [i]"
    by (simp only: stage_next_simp if_True simp_thms)
  from c test have True: "publish_test oic fr ?q" by blast
  have buf: "appendPropertyToJsonString fmtd
               (if \<not> (L \<noteq> []) then buffer_of fmtd ps0 L @ ''{'' else buffer_of fmtd ps0 L) ?q
             = buffer_of fmtd ps0 (L @ [i])"
    by (rule buffer_of_snoc) (rule rq)
  from over have fl: "JSON_BUFFER_LEN \<le> length (buffer_of fmtd ps0 (L @ [i]))"
    by (simp add: L')
  show ?thesis
    using i len True fl by (simp only: member_step_unfold buf if_True if_False)
qed

lemma members_loop_Cons_error:
  "member_step fmtd nowMs oic fr i a = Inl e \<Longrightarrow>
   members_loop fmtd nowMs oic fr (i # is) a = Inl e"
  by simp

lemma members_loop_overrun:
  assumes "tracks nowMs ps0 L ps" and "\<forall>i \<in> set is. i < length ps0"
      and "length (buffer_of fmtd ps0 L) < JSON_BUFFER_LEN"
      and "\<not> length (buffer_of fmtd ps0 (foldl (stage_next nowMs fr ps0) L (map (Pair oic) is)))
             < JSON_BUFFER_LEN"
  shows "members_loop fmtd nowMs oic fr is (ps, buffer_of fmtd ps0 L, L \<noteq> []) = Inl OutOfBounds"
  using assms
proof (induction "is" arbitrary: L ps)
  case Nil
  then show ?case by simp
next
  case (Cons i "is")
  let ?L1 = "stage_next nowMs fr ps0 L (oic, i)"
  have eq: "foldl (stage_next nowMs fr ps0) L (map (Pair oic) (i # is))
              = foldl (stage_next nowMs fr ps0) ?L1 (map (Pair oic) is)"
    by simp
  from Cons.prems(4)
  have over: "\<not> length (buffer_of fmtd ps0 (foldl (stage_next nowMs fr ps0) ?L1 (map (Pair oic) is)))
               < JSON_BUFFER_LEN"
    unfolding eq .
  from Cons.prems(2) have i: "i < length ps0" and rest: "\<forall>i \<in> set is. i < length ps0"
    by simp_all
  show ?case
  proof (cases "length (buffer_of fmtd ps0 ?L1) < JSON_BUFFER_LEN")
    case True
    from member_step_tracks [OF Cons.prems(1) i True]
    obtain ps1 where step: "member_step fmtd nowMs oic fr i (ps, buffer_of fmtd ps0 L, L \<noteq> [])
                              = Inr (ps1, buffer_of fmtd ps0 ?L1, ?L1 \<noteq> [])"
      and tr1: "tracks nowMs ps0 ?L1 ps1"
      by blast
    show ?thesis
      unfolding members_loop_Cons [OF step]
      by (rule Cons.IH [OF tr1 rest True over])
  next
    case False
    from member_step_overrun [OF Cons.prems(1) i Cons.prems(3) False]
    show ?thesis by (rule members_loop_Cons_error)
  qed
qed

lemma groups_loop_due_inner_error:
  "due nowMs fr g \<Longrightarrow> propsWithin g \<le> length (propsIndexes g) \<Longrightarrow>
   members_loop fmtd nowMs (onlyIfChanged g) fr (members g) a = Inl e \<Longrightarrow>
   groups_loop fmtd nowMs fr (g # gs) a = Inl e"
  by (simp add: due_def)

lemma groups_loop_due_outer_error:
  "due nowMs fr g \<Longrightarrow> propsWithin g \<le> length (propsIndexes g) \<Longrightarrow>
   members_loop fmtd nowMs (onlyIfChanged g) fr (members g) a = Inr a1 \<Longrightarrow>
   groups_loop fmtd nowMs fr gs a1 = Inl e \<Longrightarrow>
   groups_loop fmtd nowMs fr (g # gs) a = Inl e"
  by (simp add: due_def)

lemma groups_loop_not_due_error:
  "\<not> due nowMs fr g \<Longrightarrow> groups_loop fmtd nowMs fr gs a = Inl e \<Longrightarrow>
   groups_loop fmtd nowMs fr (g # gs) a = Inl e"
  by (simp add: due_def)

lemma groups_loop_overrun:
  assumes "tracks nowMs ps0 L ps"
      and "\<forall>g \<in> set gs. due nowMs fr g \<longrightarrow>
             propsWithin g \<le> length (propsIndexes g) \<and> (\<forall>i \<in> set (members g). i < length ps0)"
      and "length (buffer_of fmtd ps0 L) < JSON_BUFFER_LEN"
      and "\<not> length (buffer_of fmtd ps0 (foldl (stage_next nowMs fr ps0) L (visits nowMs fr gs)))
             < JSON_BUFFER_LEN"
  shows "groups_loop fmtd nowMs fr gs (ps, buffer_of fmtd ps0 L, L \<noteq> []) = Inl OutOfBounds"
  using assms
proof (induction gs arbitrary: L ps)
  case Nil
  then show ?case by (simp add: visits_def)
next
  case (Cons g gs)
  from Cons.prems(2)
  have rest: "\<forall>g \<in> set gs. due nowMs fr g \<longrightarrow>
             propsWithin g \<le> length (propsIndexes g) \<and> (\<forall>i \<in> set (members g). i < length ps0)"
    by simp
  show ?case
  proof (cases "due nowMs fr g")
    case True
    let ?L1 = "foldl (stage_next nowMs fr ps0) L (map (Pair (onlyIfChanged g)) (members g))"
    have eq: "foldl (stage_next nowMs fr ps0) L (visits nowMs fr (g # gs))
                = foldl (stage_next nowMs fr ps0) ?L1 (visits nowMs fr gs)"
      by (simp only: visits_due [OF True] foldl_append)
    from True Cons.prems(2)
    have cnt: "propsWithin g \<le> length (propsIndexes g)"
      and rng: "\<forall>i \<in> set (members g). i < length ps0"
      by simp_all
    from Cons.prems(4)
    have over: "\<not> length (buffer_of fmtd ps0 (foldl (stage_next nowMs fr ps0) ?L1 (visits nowMs fr gs)))
                 < JSON_BUFFER_LEN"
      unfolding eq .
    show ?thesis
    proof (cases "length (buffer_of fmtd ps0 ?L1) < JSON_BUFFER_LEN")
      case fit1: True
      from members_loop_tracks [OF Cons.prems(1) rng fit1]
      obtain ps1 where inner: "members_loop fmtd nowMs (onlyIfChanged g) fr (members g)
                                 (ps, buffer_of fmtd ps0 L, L \<noteq> [])
                               = Inr (ps1, buffer_of fmtd ps0 ?L1, ?L1 \<noteq> [])"
        and tr1: "tracks nowMs ps0 ?L1 ps1"
        by blast
      from Cons.IH [OF tr1 rest fit1 over]
      show ?thesis by (rule groups_loop_due_outer_error [OF True cnt inner])
    next
      case False
      from members_loop_overrun [OF Cons.prems(1) rng Cons.prems(3) False]
      show ?thesis by (rule groups_loop_due_inner_error [OF True cnt])
    qed
  next
    case False
    have eq: "foldl (stage_next nowMs fr ps0) L (visits nowMs fr (g # gs))
                = foldl (stage_next nowMs fr ps0) L (visits nowMs fr gs)"
      by (simp only: visits_not_due [OF False])
    from Cons.prems(4)
    have over: "\<not> length (buffer_of fmtd ps0 (foldl (stage_next nowMs fr ps0) L (visits nowMs fr gs)))
                 < JSON_BUFFER_LEN"
      unfolding eq .
    from Cons.IH [OF Cons.prems(1) rest Cons.prems(3) over]
    show ?thesis by (rule groups_loop_not_due_error [OF False])
  qed
qed

lemma tick_overruns_buffer:
  assumes empty: "jsonBuffer st = []"
      and wf: "\<forall>g \<in> set (due_groups nowMs st).
                 propsWithin g \<le> length (propsIndexes g)
                 \<and> (\<forall>i \<in> set (members g). i < length (props st))"
      and over: "\<not> (\<forall>s. batch_payload fmtd (props st) (staged_sequence nowMs st) = Some s
                   \<longrightarrow> length s < JSON_BUFFER_LEN)"
  shows "tick fmtd True sync nowMs st = Inl OutOfBounds"
proof -
  let ?gs = "take (numPropGroupsCreated st) (propGroups st)"
  let ?L = "staged_sequence nowMs st"
  have L: "?L = foldl (stage_next nowMs (first_run st) (props st)) [] (visits nowMs (first_run st) ?gs)"
    by (simp add: staged_sequence_def encounters_visits)
  have wf': "\<forall>g \<in> set ?gs. due nowMs (first_run st) g \<longrightarrow>
               propsWithin g \<le> length (propsIndexes g)
               \<and> (\<forall>i \<in> set (members g). i < length (props st))"
    using wf by (simp add: due_groups_def due_def)
  from over have ne: "?L \<noteq> []"
    by (auto simp add: batch_payload_def)
  with over have long: "JSON_BUFFER_LEN \<le> length (buffer_of fmtd (props st) ?L @ ''}'')"
    by (simp add: batch_payload_buffer)
  have b0: "buffer_of fmtd (props st) [] = jsonBuffer st"
    by (simp add: empty buffer_of_def)
  have cur: "length (buffer_of fmtd (props st) []) < JSON_BUFFER_LEN"
    by (simp add: buffer_of_def JSON_BUFFER_LEN_def)
  show ?thesis
  proof (cases "length (buffer_of fmtd (props st) ?L) < JSON_BUFFER_LEN")
    case True
    from groups_loop_tracks [OF tracks_start wf' True [unfolded L]]
    obtain gs' ps' where
      loop0: "groups_loop fmtd nowMs (first_run st) ?gs
                (props st, buffer_of fmtd (props st) [], ([]::nat list) \<noteq> [])
              = Inr (gs', ps',
                  buffer_of fmtd (props st)
                    (foldl (stage_next nowMs (first_run st) (props st)) []
                       (visits nowMs (first_run st) ?gs)),
                  foldl (stage_next nowMs (first_run st) (props st)) []
                    (visits nowMs (first_run st) ?gs) \<noteq> [])"
      by blast
    have loop: "groups_loop fmtd nowMs (first_run st) ?gs (props st, jsonBuffer st, False)
               = Inr (gs', ps', buffer_of fmtd (props st) ?L, ?L \<noteq> [])"
      using loop0 unfolding b0 L by simp
    from loop ne long show ?thesis
      by (simp add: tick_def Let_def)
  next
    case False
    from groups_loop_overrun [OF tracks_start wf' cur False [unfolded L]]
    have "groups_loop fmtd nowMs (first_run st) ?gs (props st, jsonBuffer st, False)
            = Inl OutOfBounds"
      unfolding b0 by simp
    then show ?thesis
      by (simp add: tick_def Let_def)
  qed
qed

lemma oversized_payload_overruns_buffer:
  "tick fmtd True sync 100 (speed_task long_text_prop 0 True) = Inl OutOfBounds"
  by (simp add: tick_def member_step_def members_def appendPropertyToJsonString_def
      isSetValueEqualToLastSent_def isMsElapsed_def JSON_BUFFER_LEN_def quoted_def
      speed_task_def speed_prop_def long_text_prop_def Let_def)

text \<open>
  C5. The claim: on a scheduler tick a member of a due group is staged exactly when it is
  not disabled and (its changed flag is true and its value differs from the last
  published one, or the group publishes always, or this is the first tick since startup).
  The task's \<open>first_run\<close> is cleared by the first successful publish, not by the first
  tick. In the run below the first tick finds the device disconnected and does nothing;
  the second tick stages the property although, for it, the condition of the claim is
  false: the value equals the last published one, the group publishes only what changed,
  and the tick is not the first.
\<close>

theorem latch_outlives_first_tick_counterexample:
  "run (\<lambda>_ _ _. []) [Tick False True 100] (task_start 0 speed_in_group)
     = Inr (speed_task (speed_prop True 0 0 False 0) 0 True, [None])
   \<and> run (\<lambda>_ _ _. []) [Tick False True 100, Tick True True 200] (task_start 0 speed_in_group)
       = Inr (speed_task (speed_prop False 0 0 False 0) 200 False, [None, Some ''{\"speed\":0}''])
   \<and> \<not> spec_staged (disabled (speed_prop True 0 0 False 0))
         (changed_after_debounce 200 (speed_prop True 0 0 False 0))
         (\<not> isSetValueEqualToLastSent (speed_prop True 0 0 False 0))
         (onlyIfChanged (propGroups (speed_task (speed_prop True 0 0 False 0) 0 True) ! 0))
         False"
proof -
  have r1: "run (\<lambda>_ _ _. []) [Tick False True 100] (task_start 0 speed_in_group)
     = Inr (speed_task (speed_prop True 0 0 False 0) 0 True, [None])"
    by (simp add: speed_start speed_disconnected_tick)
  have r2: "run (\<lambda>_ _ _. []) [Tick False True 100, Tick True True 200] (task_start 0 speed_in_group)
       = Inr (speed_task (speed_prop False 0 0 False 0) 200 False, [None, Some ''{\"speed\":0}''])"
    by (simp add: speed_start speed_disconnected_tick speed_second_tick)
  have n: "\<not> spec_staged (disabled (speed_prop True 0 0 False 0))
         (changed_after_debounce 200 (speed_prop True 0 0 False 0))
         (\<not> isSetValueEqualToLastSent (speed_prop True 0 0 False 0))
         (onlyIfChanged (propGroups (speed_task (speed_prop True 0 0 False 0) 0 True) ! 0))
         False"
    by (simp add: spec_staged_def isSetValueEqualToLastSent_def speed_prop_def speed_task_def)
  from r1 r2 n show ?thesis by (intro conjI)
qed

text \<open>
  C5, as the code has it. Take an iteration that starts with an empty buffer (as the task
  leaves it) in a state whose due groups hold valid property indices. The staged
  properties are exactly the members of due groups that satisfy the condition of the
  specification, read with the changed flag after the debounce step of the same iteration
  and with "first tick" replaced by the latch \<open>first_run\<close>; no other property is staged.
  When no property is a member of two due groups, the staged sequence is the due groups'
  members in order, filtered by that condition. When connected and the payload with its
  closing brace is shorter than the JSON buffer, the iteration hands to the publish call
  exactly \<open>batch_payload\<close> of the staged sequence: one flat object with one member per
  staged property, or nothing when nothing is staged; it leaves the buffer empty, and it
  leaves the latch set unless it published and the publish succeeded. A longer payload
  overruns the buffer. When not connected, nothing is published and the state is
  unchanged. In a state reached by a run of the task from its start, the latch is set
  exactly when no publish has succeeded so far.
\<close>

theorem batch_composition:
  assumes "jsonBuffer st = []"
      and "\<forall>g \<in> set (due_groups nowMs st).
             propsWithin g \<le> length (propsIndexes g)
             \<and> (\<forall>i \<in> set (members g). i < length (props st))"
  shows "(if \<forall>s. batch_payload fmtd (props st) (staged_sequence nowMs st) = Some s
                 \<longrightarrow> length s < JSON_BUFFER_LEN
          then \<exists>st'. tick fmtd True sync nowMs st
                        = Inr (st', batch_payload fmtd (props st) (staged_sequence nowMs st))
                 \<and> first_run st'
                     = (first_run st
                        \<and> \<not> (\<exists>s. batch_payload fmtd (props st) (staged_sequence nowMs st) = Some s
                                 \<and> sync s))
                 \<and> jsonBuffer st' = []
          else tick fmtd True sync nowMs st = Inl OutOfBounds)
       \<and> set (staged_sequence nowMs st)
           = {i. \<exists>g \<in> set (due_groups nowMs st). i \<in> set (members g)
                   \<and> staging_condition nowMs (first_run st) (onlyIfChanged g) (props st ! i)}
       \<and> (distinct (concat (map members (due_groups nowMs st))) \<longrightarrow>
            staged_sequence nowMs st
              = concat (map (\<lambda>g. filter (\<lambda>i. staging_condition nowMs (first_run st)
                                               (onlyIfChanged g) (props st ! i)) (members g))
                          (due_groups nowMs st)))
       \<and> tick fmtd False sync nowMs st = Inr (st, None)
       \<and> (run fmtd es (task_start startMs g0) = Inr (st, outs)
            \<longrightarrow> first_run st = (\<not> publish_succeeded es outs))"
proof (intro conjI impI)
  show "if \<forall>s. batch_payload fmtd (props st) (staged_sequence nowMs st) = Some s
                 \<longrightarrow> length s < JSON_BUFFER_LEN
          then \<exists>st'. tick fmtd True sync nowMs st
                        = Inr (st', batch_payload fmtd (props st) (staged_sequence nowMs st))
                 \<and> first_run st'
                     = (first_run st
                        \<and> \<not> (\<exists>s. batch_payload fmtd (props st) (staged_sequence nowMs st) = Some s
                                 \<and> sync s))
                 \<and> jsonBuffer st' = []
          else tick fmtd True sync nowMs st = Inl OutOfBounds"
  proof (cases "\<forall>s. batch_payload fmtd (props st) (staged_sequence nowMs st) = Some s
                 \<longrightarrow> length s < JSON_BUFFER_LEN")
    case True
    from tick_publishes_staged_sequence [OF assms True]
    obtain st' where t: "tick fmtd True sync nowMs st
                 = Inr (st', batch_payload fmtd (props st) (staged_sequence nowMs st))"
      by blast
    from tick_latch [OF t] tick_empties_buffer [OF t assms(1)] t
    have ex: "\<exists>st'. tick fmtd True sync nowMs st
                        = Inr (st', batch_payload fmtd (props st) (staged_sequence nowMs st))
                 \<and> first_run st'
                     = (first_run st
                        \<and> \<not> (\<exists>s. batch_payload fmtd (props st) (staged_sequence nowMs st) = Some s
                                 \<and> sync s))
                 \<and> jsonBuffer st' = []"
      by blast
    show ?thesis
      unfolding if_P [OF True] by (rule ex)
  next
    case False
    show ?thesis
      unfolding if_not_P [OF False] by (rule tick_overruns_buffer [OF assms False])
  qed
next
  show "set (staged_sequence nowMs st)
           = {i. \<exists>g \<in> set (due_groups nowMs st). i \<in> set (members g)
                   \<and> staging_condition nowMs (first_run st) (onlyIfChanged g) (props st ! i)}"
    unfolding staged_sequence_def encounters_def stage_walk_set
    by (simp only: visited_members) simp
next
  assume d: "distinct (concat (map members (due_groups nowMs st)))"
  then have "distinct (map snd (encounters nowMs st))"
    by (simp only: encounters_def visited_indices)
  then have "staged_sequence nowMs st
               = [] @ map snd (filter (\<lambda>(oic, i). staging_condition nowMs (first_run st) oic (props st ! i))
                            (encounters nowMs st))"
    unfolding staged_sequence_def by (rule stage_walk_distinct) simp
  then show "staged_sequence nowMs st
              = concat (map (\<lambda>g. filter (\<lambda>i. staging_condition nowMs (first_run st)
                                               (onlyIfChanged g) (props st ! i)) (members g))
                          (due_groups nowMs st))"
    by (simp only: encounters_def visited_filter append_Nil)
next
  show "tick fmtd False sync nowMs st = Inr (st, None)"
    by (simp add: tick_def)
next
  assume r: "run fmtd es (task_start startMs g0) = Inr (st, outs)"
  from run_latch [OF r] task_start_locals [of startMs g0]
  show "first_run st = (\<not> publish_succeeded es outs)"
    by simp
qed

lemma two_group_staged: "staged_sequence 1000 two_group_task = [0, 1]"
  by (simp add: staged_sequence_def encounters_def due_groups_def members_def isMsElapsed_def
      stage_next_def staging_condition_def spec_staged_def changed_after_debounce_def
      isSetValueEqualToLastSent_def two_group_task_def zero_Prop_def)

lemma two_group_payload:
  "batch_payload fmtd (props two_group_task) (staged_sequence 1000 two_group_task)
     = Some ''{\"a\":5,\"b\":7}''"
  by (simp only: two_group_staged)
     (simp add: batch_payload_def render_member_def appendPropertyToJsonString_def
      two_group_task_def zero_Prop_def quoted_def print_i32_def dec_int_def dec_nat.simps
      digit_char_def)

lemma latched_staged:
  "staged_sequence 200 (speed_task (speed_prop True 0 0 False 0) 0 True) = [0]"
  by (simp add: staged_sequence_def encounters_def due_groups_def members_def isMsElapsed_def
      stage_next_def staging_condition_def spec_staged_def changed_after_debounce_def
      isSetValueEqualToLastSent_def speed_task_def speed_prop_def)

lemma latched_payload:
  "batch_payload fmtd (props (speed_task (speed_prop True 0 0 False 0) 0 True))
     (staged_sequence 200 (speed_task (speed_prop True 0 0 False 0) 0 True))
     = Some ''{\"speed\":0}''"
  by (simp only: latched_staged)
     (simp add: batch_payload_def render_member_def appendPropertyToJsonString_def
      speed_task_def speed_prop_def quoted_def print_i32_def dec_int_def dec_nat.simps
      digit_char_def)

lemma latched_run:
  "run fmtd [Tick False True 100] (task_start 0 speed_in_group)
     = Inr (speed_task (speed_prop True 0 0 False 0) 0 True, [None])"
  by (simp add: speed_start speed_disconnected_tick)

theorem batch_composition_witness:
  "(\<exists>st'. tick (\<lambda>_ _ _. []) True (\<lambda>_. True) 1000 two_group_task
            = Inr (st', Some ''{\"a\":5,\"b\":7}'') \<and> jsonBuffer st' = [])
   \<and> staged_sequence 1000 two_group_task = [0, 1]
   \<and> set (staged_sequence 1000 two_group_task)
       = {i. \<exists>g \<in> set (due_groups 1000 two_group_task). i \<in> set (members g)
              \<and> staging_condition 1000 (first_run two_group_task) (onlyIfChanged g)
                   (props two_group_task ! i)}
   \<and> run (\<lambda>_ _ _. []) [Tick False True 100] (task_start 0 speed_in_group)
       = Inr (speed_task (speed_prop True 0 0 False 0) 0 True, [None])
   \<and> first_run (speed_task (speed_prop True 0 0 False 0) 0 True)
       = (\<not> publish_succeeded [Tick False True 100] [None])
   \<and> (\<exists>st'. tick (\<lambda>_ _ _. []) True (\<lambda>_. False) 200 (speed_task (speed_prop True 0 0 False 0) 0 True)
            = Inr (st', Some ''{\"speed\":0}'') \<and> first_run st' = True)
   \<and> (\<exists>st'. tick (\<lambda>_ _ _. []) True (\<lambda>_. True) 200 (speed_task (speed_prop True 0 0 False 0) 0 True)
            = Inr (st', Some ''{\"speed\":0}'') \<and> first_run st' = False)"
proof -
  let ?f = "\<lambda>_ _ _. []"
  let ?s = "speed_task (speed_prop True 0 0 False 0) 0 True"
  have e: "jsonBuffer two_group_task = []"
    by (simp add: two_group_task_def)
  have wf: "\<forall>g \<in> set (due_groups 1000 two_group_task).
              propsWithin g \<le> length (propsIndexes g)
              \<and> (\<forall>i \<in> set (members g). i < length (props two_group_task))"
    by (simp add: due_groups_def members_def isMsElapsed_def two_group_task_def)
  have fits: "\<forall>s. batch_payload ?f (props two_group_task)
                     (staged_sequence 1000 two_group_task) = Some s
                \<longrightarrow> length s < JSON_BUFFER_LEN"
    by (simp add: two_group_payload JSON_BUFFER_LEN_def)
  note bc = batch_composition [OF e wf, of ?f "\<lambda>_. True"]
  from bc have "if \<forall>s. batch_payload ?f (props two_group_task)
                     (staged_sequence 1000 two_group_task) = Some s
                \<longrightarrow> length s < JSON_BUFFER_LEN
          then \<exists>st'. tick ?f True (\<lambda>_. True) 1000 two_group_task
                        = Inr (st', batch_payload ?f (props two_group_task)
                                (staged_sequence 1000 two_group_task))
                 \<and> first_run st'
                     = (first_run two_group_task
                        \<and> \<not> (\<exists>s. batch_payload ?f (props two_group_task)
                                       (staged_sequence 1000 two_group_task) = Some s
                                 \<and> (\<lambda>_. True) s))
                 \<and> jsonBuffer st' = []
          else tick ?f True (\<lambda>_. True) 1000 two_group_task = Inl OutOfBounds"
    by (rule conjunct1)
  then have "\<exists>st'. tick ?f True (\<lambda>_. True) 1000 two_group_task
                        = Inr (st', batch_payload ?f (props two_group_task)
                                (staged_sequence 1000 two_group_task))
                 \<and> first_run st'
                     = (first_run two_group_task
                        \<and> \<not> (\<exists>s. batch_payload ?f (props two_group_task)
                                       (staged_sequence 1000 two_group_task) = Some s
                                 \<and> (\<lambda>_. True) s))
                 \<and> jsonBuffer st' = []"
    unfolding if_P [OF fits] .
  then have t: "\<exists>st'. tick ?f True (\<lambda>_. True) 1000 two_group_task
                  = Inr (st', Some ''{\"a\":5,\"b\":7}'') \<and> jsonBuffer st' = []"
    unfolding two_group_payload by blast
  from bc have s: "set (staged_sequence 1000 two_group_task)
       = {i. \<exists>g \<in> set (due_groups 1000 two_group_task). i \<in> set (members g)
              \<and> staging_condition 1000 (first_run two_group_task) (onlyIfChanged g)
                   (props two_group_task ! i)}"
    by (rule conjunct1 [OF conjunct2])
  have e2: "jsonBuffer ?s = []"
    by (simp add: speed_task_def)
  have wf2: "\<forall>g \<in> set (due_groups 200 ?s).
              propsWithin g \<le> length (propsIndexes g)
              \<and> (\<forall>i \<in> set (members g). i < length (props ?s))"
    by (simp add: due_groups_def members_def isMsElapsed_def speed_task_def)
  have fits2: "\<forall>s. batch_payload ?f (props ?s) (staged_sequence 200 ?s) = Some s
                \<longrightarrow> length s < JSON_BUFFER_LEN"
    by (simp add: latched_payload JSON_BUFFER_LEN_def)
  have fr: "first_run ?s = True"
    by (simp add: speed_task_def)
  note lf = batch_composition [OF e2 wf2, of ?f "\<lambda>_. False" "[Tick False True 100]" 0
      speed_in_group "[None]"]
  note lt = batch_composition [OF e2 wf2, of ?f "\<lambda>_. True" "[Tick False True 100]" 0
      speed_in_group "[None]"]
  from lf latched_run [of ?f]
  have latch: "first_run ?s = (\<not> publish_succeeded [Tick False True 100] [None])"
    by blast
  from conjunct1 [OF lf, unfolded if_P [OF fits2] latched_payload]
  have f1: "\<exists>st'. tick ?f True (\<lambda>_. False) 200 ?s = Inr (st', Some ''{\"speed\":0}'')
              \<and> first_run st' = True"
    by (simp add: fr JSON_BUFFER_LEN_def) blast
  from conjunct1 [OF lt, unfolded if_P [OF fits2] latched_payload]
  have f2: "\<exists>st'. tick ?f True (\<lambda>_. True) 200 ?s = Inr (st', Some ''{\"speed\":0}'')
              \<and> first_run st' = False"
    by (simp add: fr JSON_BUFFER_LEN_def) blast
  from t two_group_staged s latched_run [of ?f] latch f1 f2 show ?thesis
    by (intro conjI)
qed

subsection \<open>Initial values of new entries (C6)\<close>




subsection \<open>Accessors on invalid handles (C7)\<close>

text \<open>
  C7. The claim: on an invalid handle every accessor returns one of the documented
  sentinels (empty string, -1, false), the scale and number-of-decimals accessors
  included. With three properties created, handle 4 is invalid, and the scale and
  number-of-decimals accessors return 0 for it, which is none of the three.
\<close>

theorem scale_accessor_sentinel_counterexample:
  "numPropsCreated three_props = 3
   \<and> Trackle_Prop_getScale three_props 4 = 0
   \<and> ResInt (uint (Trackle_Prop_getScale three_props 4)) \<notin> documented_sentinels
   \<and> ResInt (uint (Trackle_Prop_getNumberOfDecimals three_props 4)) \<notin> documented_sentinels"
  by (simp add: three_props_count Trackle_Prop_getScale_def Trackle_Prop_getNumberOfDecimals_def
      documented_sentinels_def)

text \<open>
  C7, as the code has it. For every handle outside \<open>1 .. numPropsCreated\<close> (respectively
  \<open>1 .. numNotificationsCreated\<close>) the accessors return, without any out-of-range access:
  the empty string for the key, -1 for the value and the level, false for the boolean
  accessors (also \<open>Trackle_Prop_getStringValue\<close>, which then writes nothing), and 0 for
  the scale and the number of decimals.
\<close>

theorem invalid_handle_sentinels:
  assumes "propID < 1 \<or> int (numPropsCreated st) < propID"
      and "notificationID < 1 \<or> int (numNotificationsCreated nst) < notificationID"
  shows "Trackle_Prop_getKey st propID = []
       \<and> sint (Trackle_Prop_getValue st propID) = - 1
       \<and> Trackle_Prop_getStringValue st propID len = (False, None)
       \<and> Trackle_Prop_isDisabled st propID = False
       \<and> Trackle_Prop_isSigned st propID = False
       \<and> Trackle_Prop_getScale st propID = 0
       \<and> Trackle_Prop_getNumberOfDecimals st propID = 0
       \<and> Trackle_Notification_getKey nst notificationID = []
       \<and> sint (Trackle_Notification_getLevel nst notificationID) = - 1
       \<and> sint (Trackle_Notification_getValue nst notificationID) = - 1"
  using assms
  by (auto simp add: Trackle_Prop_getKey_def Trackle_Prop_getValue_def
      Trackle_Prop_getStringValue_def Trackle_Prop_isDisabled_def Trackle_Prop_isSigned_def
      Trackle_Prop_getScale_def Trackle_Prop_getNumberOfDecimals_def
      Trackle_Notification_getKey_def Trackle_Notification_getLevel_def
      Trackle_Notification_getValue_def EMPTY_STRING_def Let_def)

theorem invalid_handle_sentinels_witness:
  "Trackle_Prop_getKey three_props 4 = []
   \<and> sint (Trackle_Prop_getValue three_props 4) = - 1
   \<and> Trackle_Prop_getScale three_props 0 = 0
   \<and> Trackle_Prop_getNumberOfDecimals three_props (- 7) = 0
   \<and> sint (Trackle_Notification_getLevel one_notification 2) = - 1"
proof -
  have a: "(4::int) < 1 \<or> int (numPropsCreated three_props) < 4"
    by (simp add: three_props_count)
  have b: "(0::int) < 1 \<or> int (numPropsCreated three_props) < 0" by simp
  have c: "(- 7::int) < 1 \<or> int (numPropsCreated three_props) < - 7" by simp
  have d: "(2::int) < 1 \<or> int (numNotificationsCreated one_notification) < 2"
    by (simp add: one_notification_count)
  from invalid_handle_sentinels [OF a d, of 0] invalid_handle_sentinels [OF b d, of 0]
       invalid_handle_sentinels [OF c d, of 0]
  show ?thesis by simp
qed

subsection \<open>Updating with the stored value (C8)\<close>

text \<open>
  C8. For every valid property handle, \<open>Trackle_Prop_update\<close> called with the stored
  numeric value and \<open>Trackle_Prop_updateString\<close> called with the stored string leave the
  whole state as it is (so neither the changed flag, nor the debouncing flag, nor the
  latest-set time, nor the value is written) and return false.
\<close>

theorem update_with_stored_value_is_noop:
  assumes "1 \<le> propID" and "propID \<le> int (numPropsCreated st)"
  shows "Trackle_Prop_update nowMs propID (setValue (props st ! nat (propID - 1))) st = (False, st)
       \<and> Trackle_Prop_updateString nowMs propID (setStringValue (props st ! nat (propID - 1))) st
           = (False, st)"
  using assms
  by (simp add: Trackle_Prop_update_def Trackle_Prop_updateString_def Let_def split: option.split)

lemma with_label_prop:
  "numPropsCreated with_label = 4
   \<and> setStringValue (props with_label ! 3) = Some ''running''
   \<and> setValue (props with_label ! 3) = 0
   \<and> debouncing (props with_label ! 3) = True
   \<and> changed (props with_label ! 3) = True"
  by (simp add: with_label_def Trackle_Prop_updateString_def Trackle_Prop_createString_def
      demo_defs)

theorem update_with_stored_value_is_noop_witness:
  "Trackle_Prop_update 777 4 0 with_label = (False, with_label)
   \<and> Trackle_Prop_updateString 777 4 (Some ''running'') with_label = (False, with_label)
   \<and> numPropsCreated with_label = 4
   \<and> setValue (props with_label ! 3) = 0
   \<and> setStringValue (props with_label ! 3) = Some ''running''"
proof -
  have "(1::int) \<le> 4" and "(4::int) \<le> int (numPropsCreated with_label)"
    by (simp_all add: with_label_prop)
  from update_with_stored_value_is_noop [OF this, of 777] with_label_prop
  show ?thesis by simp
qed

subsection \<open>Rendering with a value map (C9)\<close>

text \<open>
  C9. The claim: when the mapped entry is null the value is rendered numerically, as an
  integer when the scale is 1 and as a fixed-point decimal otherwise. With scale 100, two
  decimals, value 1 and a map whose entry 1 is null, the code writes the integer 1; the
  same notification without a map is written by the decimal printer (into the 32-byte
  buffer).
\<close>

theorem null_map_entry_ignores_scale:
  "n_scale null_entry_notification = 100
   \<and> notification_valueBuffer fmtd null_entry_notification = Inr ''1''
   \<and> notification_valueBuffer fmtd (null_entry_notification \<lparr> n_valueMap := None \<rparr>)
       = (if 32 \<le> length (fmtd 2 1 100) then Inl OutOfBounds else Inr (fmtd 2 1 100))"
  by (simp add: null_entry_notification_def zero_Notification_def notification_valueBuffer_def
      print_u32_def dec_nat.simps digit_char_def Let_def)

subsection \<open>Updating a notification (C10)\<close>

text \<open>
  C10. \<open>Trackle_Notification_update\<close> returns true for every handle in
  \<open>1 .. numNotificationsCreated\<close>, whatever the level; when the new level equals the stored
  one, the state is returned as it was: level, value and changed flag are not written.
\<close>

theorem notification_update_true_for_valid_handle:
  assumes "1 \<le> notificationID" and "notificationID \<le> int (numNotificationsCreated st)"
  shows "fst (Trackle_Notification_update notificationID newLevel v st) = True
       \<and> Trackle_Notification_update notificationID
            (n_level (notifications st ! nat (notificationID - 1))) v st = (True, st)"
  using assms by (simp add: Trackle_Notification_update_def Let_def)

theorem notification_update_true_for_valid_handle_witness:
  "numNotificationsCreated one_notification = 1
   \<and> n_level (notifications one_notification ! 0) = 0
   \<and> fst (Trackle_Notification_update 1 3 5 one_notification) = True
   \<and> Trackle_Notification_update 1 0 5 one_notification = (True, one_notification)"
proof -
  have l: "n_level (notifications one_notification ! 0) = 0" by (simp add: notif_demo_defs)
  have "(1::int) \<le> 1" and "(1::int) \<le> int (numNotificationsCreated one_notification)"
    by (simp_all add: one_notification_count)
  from notification_update_true_for_valid_handle [OF this, of 3 5]
       notification_update_true_for_valid_handle [OF this, of 0 5] one_notification_count l
  show ?thesis by simp
qed

end
